theory Spec2Isabelle
  imports Main
begin

section \<open>Bytes, machine integers and their object representation\<close>

text \<open>
  A byte is a C++ \<open>char\<close>; a file and a buffer are lists of bytes. The integers of the
  program (\<open>int\<close>, \<open>unsigned\<close>, \<open>long long\<close>, \<open>time_t\<close>) are mathematical integers kept
  in the range of their type: every conversion into such a type wraps explicitly
  (\<open>to_unsigned\<close>, \<open>to_signed\<close>). Objects are laid out in the native byte order of
  the usual targets, least significant byte first, with 4-byte \<open>int\<close>/\<open>unsigned\<close>/\<open>float\<close>
  and 8-byte \<open>long long\<close>/\<open>time_t\<close>/\<open>double\<close>.
\<close>

type_synonym byte = char

definition NUL :: byte where
  "NUL = CHR 0x00"

definition to_unsigned :: "nat \<Rightarrow> int \<Rightarrow> int" where
  "to_unsigned w i = i mod 2 ^ w"

definition to_signed :: "nat \<Rightarrow> int \<Rightarrow> int" where
  "to_signed w n = (if n mod 2 ^ w < 2 ^ (w - 1) then n mod 2 ^ w else n mod 2 ^ w - 2 ^ w)"

fun le_bytes :: "nat \<Rightarrow> int \<Rightarrow> byte list" where
  "le_bytes 0 v = []"
| "le_bytes (Suc n) v = char_of (v mod 256) # le_bytes n (v div 256)"

fun le_value :: "byte list \<Rightarrow> int" where
  "le_value [] = 0"
| "le_value (b # bs) = of_char b + 256 * le_value bs"

text \<open>Conversion of a size or a stream position to \<open>long long\<close>.\<close>

definition to_llong :: "int \<Rightarrow> int" where
  "to_llong i = to_signed 64 (to_unsigned 64 i)"

definition bytes_of_int :: "int \<Rightarrow> byte list" where
  "bytes_of_int v = le_bytes 4 (to_unsigned 32 v)"

definition int_of_bytes :: "byte list \<Rightarrow> int" where
  "int_of_bytes bs = to_signed 32 (le_value (take 4 bs))"

definition bytes_of_llong :: "int \<Rightarrow> byte list" where
  "bytes_of_llong v = le_bytes 8 (to_unsigned 64 v)"

definition llong_of_bytes :: "byte list \<Rightarrow> int" where
  "llong_of_bytes bs = to_signed 64 (le_value (take 8 bs))"

definition bytes_of_unsigned :: "int \<Rightarrow> byte list" where
  "bytes_of_unsigned n = le_bytes 4 (to_unsigned 32 n)"

section \<open>Decimal text\<close>

text \<open>\<open>stream << value\<close> for an integer: decimal digits, a minus sign when negative.\<close>

definition digit_char :: "int \<Rightarrow> char" where
  "digit_char d = char_of (48 + d)"

function show_digits :: "int \<Rightarrow> string" where
  "show_digits n =
     (if n < 10 then [digit_char n] else show_digits (n div 10) @ [digit_char (n mod 10)])"
  by pat_completeness auto
termination
  by (relation "measure nat") auto

declare show_digits.simps [simp del]

definition show_int :: "int \<Rightarrow> string" where
  "show_int i = (if i < 0 then CHR ''-'' # show_digits (- i) else show_digits i)"

text \<open>
  \<open>strtol\<close>/\<open>strtoll\<close> in base 10: leading white space is skipped, an optional sign is
  read, then the longest run of digits; what follows is ignored. \<open>None\<close> is "no
  conversion could be performed"; otherwise the value read, not yet fitted to a type.
\<close>

definition isspace :: "char \<Rightarrow> bool" where
  "isspace c = (c = CHR '' '' \<or> (9 \<le> (of_char c :: int) \<and> (of_char c :: int) \<le> 13))"

definition isdigit :: "char \<Rightarrow> bool" where
  "isdigit c = (48 \<le> (of_char c :: int) \<and> (of_char c :: int) \<le> 57)"

definition digits_value :: "string \<Rightarrow> int" where
  "digits_value ds = foldl (\<lambda>a c. 10 * a + (of_char c - 48)) 0 ds"

definition strtoll :: "string \<Rightarrow> int option" where
  "strtoll s =
     (let s1 = dropWhile isspace s;
          neg = (case s1 of [] \<Rightarrow> False | c # _ \<Rightarrow> c = CHR ''-'');
          s2 = (case s1 of [] \<Rightarrow> [] | c # r \<Rightarrow> if c = CHR ''-'' \<or> c = CHR ''+'' then r else s1);
          ds = takeWhile isdigit s2
      in if ds = [] then None
         else Some (if neg then - digits_value ds else digits_value ds))"

text \<open>The exceptions the program can raise: those of \<open>std::stoll\<close> and of \<open>vector::at\<close>.\<close>

datatype exn = out_of_range | invalid_argument

text \<open>
  \<open>std::stoll\<close>: \<open>invalid_argument\<close> when no conversion could be performed,
  \<open>out_of_range\<close> when the value does not fit a \<open>long long\<close>.
\<close>

definition stoll :: "string \<Rightarrow> exn + int" where
  "stoll s =
     (case strtoll s of
        None \<Rightarrow> Inl invalid_argument
      | Some v \<Rightarrow> if v < - (2 ^ 63) \<or> 2 ^ 63 \<le> v then Inl out_of_range else Inr v)"

text \<open>
  \<open>atoi\<close>: \<open>(int) strtol(s, NULL, 10)\<close>. No conversion gives 0 and no error. A value
  outside \<open>long\<close> is clamped by \<open>strtol\<close> (64-bit \<open>long\<close>), and the conversion to
  \<open>int\<close> keeps the low 32 bits.
\<close>

definition atoi :: "string \<Rightarrow> int" where
  "atoi s =
     (case strtoll s of
        None \<Rightarrow> 0
      | Some v \<Rightarrow> to_signed 32 (to_unsigned 32 (max (- (2 ^ 63)) (min (2 ^ 63 - 1) v))))"

text \<open>
  \<open>strncpy(dst, src, n)\<close> followed by reading the \<open>n\<close> bytes of \<open>dst\<close>: the characters of
  \<open>src\<close> up to its terminator, at most \<open>n\<close> of them, then zero bytes up to \<open>n\<close>. No
  terminator is stored when \<open>src\<close> has \<open>n\<close> characters or more.
\<close>

definition strncpy :: "nat \<Rightarrow> string \<Rightarrow> byte list" where
  "strncpy n src = take n (takeWhile (\<lambda>c. c \<noteq> NUL) src @ replicate n NUL)"

section \<open>Schema (\<open>schema.h\<close>, of which the table uses the interface only)\<close>

datatype ColType = INT32 | CHAR_T | FLOAT | DOUBLE | INT64 | FOREIGN_KEY

record SchemaCol =
  col_name :: string
  col_type :: ColType
  getSize :: nat

text \<open>
  The schema: its columns (\<open>getCols\<close>) and the resolution of a column name to a position
  (\<open>getColPosition\<close>), which the table only calls.
\<close>

record Schema =
  getCols :: "SchemaCol list"
  getColPosition :: "string \<Rightarrow> int"

text \<open>
  Modelled from the spec: \<open>Schema::getSize\<close> is declared in \<open>schema.h\<close>, absent here; the
  spec gives it as the total payload width, the sum of the columns' byte widths.
\<close>

definition schema_getSize :: "Schema \<Rightarrow> nat" where
  "schema_getSize s = sum_list (map getSize (getCols s))"

text \<open>A column whose size is the size of the C++ object the table converts it through.\<close>

definition wf_col :: "SchemaCol \<Rightarrow> bool" where
  "wf_col c =
     (case col_type c of
        INT32 \<Rightarrow> (getSize c = 4)
      | CHAR_T \<Rightarrow> True
      | FLOAT \<Rightarrow> (getSize c = 4)
      | DOUBLE \<Rightarrow> (getSize c = 8)
      | INT64 \<Rightarrow> (getSize c = 8)
      | FOREIGN_KEY \<Rightarrow> (getSize c = 8))"

section \<open>What the table does not determine\<close>

text \<open>
  Floating point is not interpreted: \<open>atof_float s\<close> and \<open>atof_double s\<close> are the bit
  patterns of the objects \<open>float value = atof(s)\<close> and \<open>double value = atof(s)\<close>, read
  as unsigned integers; \<open>show_float\<close> and \<open>show_double\<close> give the text of \<open>stream << value\<close>
  for the object with this bit pattern. \<open>stack i\<close> is what memory holds, before
  \<open>getRow\<close> reads into it, from the address of the local object of column \<open>i\<close> on: the
  uninitialised object and the bytes behind it. Where the list ends, memory holds zero
  bytes from there on.

  An environment is that of one call. A function that calls \<open>getRow\<close> or
  \<open>convertAndSave\<close> several times finds other memory at each of these calls:
  \<open>callee_stack k\<close> is the stack of the \<open>k\<close>-th of them, counted from 0. In
  \<open>convertAndSave\<close>, which has one local object, \<open>stack 0\<close> is the memory from the address
  of this object on.
\<close>

record Env =
  atof_float :: "string \<Rightarrow> int"
  atof_double :: "string \<Rightarrow> int"
  show_float :: "int \<Rightarrow> string"
  show_double :: "int \<Rightarrow> string"
  stack :: "nat \<Rightarrow> byte list"
  callee_stack :: "nat \<Rightarrow> nat \<Rightarrow> byte list"

text \<open>The environment of the \<open>k\<close>-th call made from a function that runs in \<open>e\<close>.\<close>

definition callee :: "Env \<Rightarrow> nat \<Rightarrow> Env" where
  "callee e k = e\<lparr>stack := callee_stack e k\<rparr>"

section \<open>Column codec\<close>

text \<open>
  \<open>file->write(reinterpret_cast<char *>(&value), schema_col->getSize())\<close> on an object
  with the bytes \<open>obj\<close>, stored where memory held \<open>mem\<close> from its address on: the
  \<open>getSize()\<close> bytes from the address of the object, which run into the memory behind
  the object when \<open>getSize()\<close> exceeds its size.
\<close>

definition write_obj :: "nat \<Rightarrow> byte list \<Rightarrow> byte list \<Rightarrow> byte list" where
  "write_obj n obj mem = take n (obj @ drop (length obj) mem @ replicate n NUL)"

text \<open>\<open>Table::convertAndSave\<close>: the bytes written to the file, or the exception raised.\<close>

definition convertAndSave :: "Env \<Rightarrow> string \<Rightarrow> SchemaCol \<Rightarrow> exn + byte list" where
  "convertAndSave e string_value schema_col =
     (case col_type schema_col of
        INT32 \<Rightarrow>
          Inr (write_obj (getSize schema_col) (bytes_of_int (atoi string_value)) (stack e 0))
      | CHAR_T \<Rightarrow>
          Inr (write_obj (getSize schema_col) (strncpy (getSize schema_col) string_value)
                 (stack e 0))
      | FLOAT \<Rightarrow>
          Inr (write_obj (getSize schema_col)
                 (le_bytes 4 (to_unsigned 32 (atof_float e string_value))) (stack e 0))
      | DOUBLE \<Rightarrow>
          Inr (write_obj (getSize schema_col)
                 (le_bytes 8 (to_unsigned 64 (atof_double e string_value))) (stack e 0))
      | INT64 \<Rightarrow>
          (case stoll string_value of
             Inl x \<Rightarrow> Inl x
           | Inr value \<Rightarrow>
               Inr (write_obj (getSize schema_col) (bytes_of_llong value) (stack e 0)))
      | FOREIGN_KEY \<Rightarrow>
          (case stoll string_value of
             Inl x \<Rightarrow> Inl x
           | Inr value \<Rightarrow>
               Inr (write_obj (getSize schema_col) (bytes_of_llong value) (stack e 0))))"

text \<open>
  The conversion of one column in \<open>Table::getRow\<close>, from the memory at the address of the
  local object after \<open>file.read\<close>: an integer is formatted in decimal, a \<open>char\<close> array is
  inserted as a C string, up to the first zero byte of the memory from its address on.
\<close>

definition c_str :: "byte list \<Rightarrow> string" where
  "c_str mem = takeWhile (\<lambda>c. c \<noteq> NUL) mem"

definition convert_col :: "Env \<Rightarrow> SchemaCol \<Rightarrow> byte list \<Rightarrow> string" where
  "convert_col e schema_col mem =
     (case col_type schema_col of
        INT32 \<Rightarrow> show_int (int_of_bytes mem)
      | CHAR_T \<Rightarrow> c_str mem
      | FLOAT \<Rightarrow> show_float e (le_value (take 4 mem))
      | DOUBLE \<Rightarrow> show_double e (le_value (take 8 mem))
      | INT64 \<Rightarrow> show_int (llong_of_bytes mem)
      | FOREIGN_KEY \<Rightarrow> show_int (llong_of_bytes mem))"

section \<open>Files and input streams\<close>

text \<open>The file system: the content of every file that exists, by path.\<close>

type_synonym fs = "string \<rightharpoonup> byte list"

text \<open>
  An \<open>ifstream\<close>: whether it is still good, and the bytes from its position to the end
  of the file. Opening a file that does not exist gives a failed stream; every read on
  a failed stream fails and stores nothing.
\<close>

record ifstream =
  good :: bool
  rest :: "byte list"

definition ifstream_open :: "string \<Rightarrow> fs \<Rightarrow> ifstream" where
  "ifstream_open p fls =
     (case fls p of
        None \<Rightarrow> \<lparr>good = False, rest = []\<rparr>
      | Some bs \<Rightarrow> \<lparr>good = True, rest = bs\<rparr>)"

text \<open>
  \<open>seekg(pos)\<close> on a stream just opened: a negative position fails; a position behind the
  end of the file is accepted and leaves nothing to read.
\<close>

definition seekg :: "int \<Rightarrow> ifstream \<Rightarrow> ifstream" where
  "seekg pos file =
     (if good file \<and> 0 \<le> pos then file\<lparr>rest := drop (nat pos) (rest file)\<rparr>
      else file\<lparr>good := False\<rparr>)"

text \<open>
  \<open>read(buf, n)\<close>: the bytes stored into \<open>buf\<close> and the stream afterwards. When fewer than
  \<open>n\<close> bytes are left they are stored and the stream fails.
\<close>

definition ifstream_read :: "nat \<Rightarrow> ifstream \<Rightarrow> byte list \<times> ifstream" where
  "ifstream_read n file =
     (if good file then
        (if n \<le> length (rest file) then (take n (rest file), file\<lparr>rest := drop n (rest file)\<rparr>)
         else (rest file, \<lparr>good = False, rest = []\<rparr>))
      else ([], file))"

section \<open>Tables\<close>

record HeaderFile =
  hf_id :: int
  hf_registry_position :: int
  hf_path :: string

text \<open>
  The fields of \<open>class Table\<close>; \<open>header\<close> is the vector the pointer refers to, each table
  owning its own. The world is the table objects by address and the file system.
\<close>

record Table =
  HEADER_SIZE :: nat
  schema :: Schema
  name :: string
  path :: string
  header_file_path :: string
  header :: "(int \<times> int) list"

record World =
  tables :: "nat \<Rightarrow> Table"
  files :: fs

text \<open>\<open>vector::at\<close>, with the index converted to \<open>size_t\<close>: out of range raises.\<close>

definition at :: "'a list \<Rightarrow> int \<Rightarrow> exn + 'a" where
  "at xs i = (if 0 \<le> i \<and> nat i < length xs then Inr (xs ! nat i) else Inl out_of_range)"

subsection \<open>Writes\<close>

text \<open>
  The writes of the program, as the effects they have on the world. Output streams are
  opened in append mode: opening creates the file when it does not exist, and every
  write lands at the end of the file. The bytes count as written when \<open>write\<close> is
  called; the stream hands them to the file at the latest when it is closed or destroyed.
\<close>

datatype effect =
    Create string
  | Write string "byte list"
  | PushBack nat "int \<times> int"
  | Remove string
  | Clear nat

definition content :: "fs \<Rightarrow> string \<Rightarrow> byte list" where
  "content fls p = (case fls p of None \<Rightarrow> [] | Some bs \<Rightarrow> bs)"

fun apply_effect :: "effect \<Rightarrow> World \<Rightarrow> World" where
  "apply_effect (Create p) w = w\<lparr>files := (files w)(p \<mapsto> content (files w) p)\<rparr>"
| "apply_effect (Write p bs) w = w\<lparr>files := (files w)(p \<mapsto> content (files w) p @ bs)\<rparr>"
| "apply_effect (PushBack this entry) w =
     w\<lparr>tables := (tables w)(this := (tables w this)\<lparr>header := header (tables w this) @ [entry]\<rparr>)\<rparr>"
| "apply_effect (Remove p) w = w\<lparr>files := (files w)(p := None)\<rparr>"
| "apply_effect (Clear this) w =
     w\<lparr>tables := (tables w)(this := (tables w this)\<lparr>header := []\<rparr>)\<rparr>"

definition run :: "effect list \<Rightarrow> World \<Rightarrow> World" where
  "run effs w = fold apply_effect effs w"

subsection \<open>Construction\<close>

text \<open>
  \<open>Table::loadHeader\<close>: pairs are read until a read fails; a trailing incomplete pair
  is not pushed.
\<close>

function loadHeader_loop :: "ifstream \<Rightarrow> (int \<times> int) list \<Rightarrow> (int \<times> int) list" where
  "loadHeader_loop file hdr =
     (case ifstream_read 8 file of (a, file1) \<Rightarrow>
        if \<not> good file1 then hdr
        else (case ifstream_read 8 file1 of (b, file2) \<Rightarrow>
          if \<not> good file2 then hdr
          else loadHeader_loop file2 (hdr @ [(llong_of_bytes a, llong_of_bytes b)])))"
  by pat_completeness auto
termination
  by (relation "measure (\<lambda>(file, hdr). length (rest file))")
     (auto simp: ifstream_read_def split: if_splits)

declare loadHeader_loop.simps [simp del]

definition loadHeader :: "string \<Rightarrow> fs \<Rightarrow> (int \<times> int) list" where
  "loadHeader hpath fls = loadHeader_loop (ifstream_open hpath fls) []"

text \<open>
  The constructor \<open>Table(name)\<close>, which loads the index, followed by \<open>setSchema\<close>:
  the schema a table has before, default-constructed by \<open>schema.h\<close>, is not used.
  \<open>HEADER_SIZE\<close> is \<open>sizeof(table_name) + sizeof(registry_size) + sizeof(time_stamp)\<close>.
\<close>

definition new_Table :: "string \<Rightarrow> Schema \<Rightarrow> fs \<Rightarrow> Table" where
  "new_Table nm sch fls =
     \<lparr>HEADER_SIZE = 255 + 4 + 8,
      schema = sch,
      name = nm,
      path = nm @ ''.dat'',
      header_file_path = nm @ ''_h.dat'',
      header = loadHeader (nm @ ''_h.dat'') fls\<rparr>"

subsection \<open>\<open>Table::insert\<close>\<close>

text \<open>\<open>Table::insertOnHeaderFile\<close>: two writes to the index file, then the \<open>push_back\<close>.\<close>

definition insertOnHeaderFile :: "nat \<Rightarrow> HeaderFile \<Rightarrow> effect list" where
  "insertOnHeaderFile this header_file =
     [Create (hf_path header_file),
      Write (hf_path header_file) (bytes_of_llong (hf_id header_file)),
      Write (hf_path header_file) (bytes_of_llong (hf_registry_position header_file)),
      PushBack this (hf_id header_file, hf_registry_position header_file)]"

text \<open>
  The loop of \<open>insert\<close> over the row, the identifier in front: the writes made, and the
  exception that ended the loop, if any. \<open>schema_cols->at(schema_col_position)\<close> raises
  when the row is longer than the schema; \<open>convertAndSave\<close> raises through \<open>std::stoll\<close>.
  Each call of \<open>convertAndSave\<close> runs in its own environment.
\<close>

fun insert_cols :: "Env \<Rightarrow> string \<Rightarrow> SchemaCol list \<Rightarrow> nat \<Rightarrow> string list \<Rightarrow> effect list \<times> exn option" where
  "insert_cols e p schema_cols schema_col_position [] = ([], None)"
| "insert_cols e p schema_cols schema_col_position (v # row) =
     (case at schema_cols (int schema_col_position) of
        Inl x \<Rightarrow> ([], Some x)
      | Inr schema_col \<Rightarrow>
          (case convertAndSave (callee e schema_col_position) v schema_col of
             Inl x \<Rightarrow> ([], Some x)
           | Inr bs \<Rightarrow>
               (case insert_cols e p schema_cols (Suc schema_col_position) row of
                  (effs, r) \<Rightarrow> (Write p bs # effs, r))))"

declare insert_cols.simps [simp del]

text \<open>
  The statements of \<open>insert\<close> in the order of the source: the data file is opened and
  its end taken as the position of the record (\<open>tellp\<close> on a stream opened for
  appending, as the C library positions it); \<open>insertOnHeaderFile\<close> is called; the
  record header is written; then the columns. \<open>now\<close> is the time \<open>time()\<close> returns.
\<close>

definition insert_effects :: "Env \<Rightarrow> int \<Rightarrow> nat \<Rightarrow> string list \<Rightarrow> World \<Rightarrow> effect list \<times> (exn + int)" where
  "insert_effects e now this row w =
     (let t = tables w this;
          header_file = \<lparr>hf_id = to_llong (int (length (header t))),
                         hf_registry_position = to_llong (int (length (content (files w) (path t)))),
                         hf_path = header_file_path t\<rparr>;
          registry_header =
            [Write (path t) (strncpy 255 (name t)),
             Write (path t) (bytes_of_unsigned (int (HEADER_SIZE t + schema_getSize (schema t)))),
             Write (path t) (bytes_of_llong now)];
          row1 = show_int (hf_id header_file) # row
      in case insert_cols e (path t) (getCols (schema t)) 0 row1 of
           (cols, r) \<Rightarrow>
             (Create (path t) # insertOnHeaderFile this header_file @ registry_header @ cols,
              case r of Some x \<Rightarrow> Inl x | None \<Rightarrow> Inr (hf_id header_file)))"

definition Table_insert :: "Env \<Rightarrow> int \<Rightarrow> nat \<Rightarrow> string list \<Rightarrow> World \<Rightarrow> (exn + int) \<times> World" where
  "Table_insert e now this row w =
     (case insert_effects e now this row w of (effs, r) \<Rightarrow> (r, run effs w))"

subsection \<open>\<open>Table::drop\<close>\<close>

definition drop_effects :: "nat \<Rightarrow> World \<Rightarrow> effect list" where
  "drop_effects this w =
     [Remove (path (tables w this)), Remove (header_file_path (tables w this)), Clear this]"

definition Table_drop :: "nat \<Rightarrow> World \<Rightarrow> World" where
  "Table_drop this w = run (drop_effects this w) w"

subsection \<open>\<open>Table::getRow\<close> and \<open>Table::getRowById\<close>\<close>

text \<open>
  The loop of \<open>getRow\<close> over the schema columns. The local object of column \<open>i\<close> holds
  \<open>stack e i\<close> before the read; the read overwrites as many bytes as it got.
\<close>

fun getRow_cols :: "Env \<Rightarrow> SchemaCol list \<Rightarrow> nat \<Rightarrow> ifstream \<Rightarrow> string list \<times> ifstream" where
  "getRow_cols e [] i file = ([], file)"
| "getRow_cols e (schema_col # cs) i file =
     (case ifstream_read (getSize schema_col) file of
        (got, file1) \<Rightarrow>
          (case getRow_cols e cs (Suc i) file1 of
             (row, file2) \<Rightarrow>
               (convert_col e schema_col (got @ drop (length got) (stack e i)) # row, file2)))"

definition getRow :: "Env \<Rightarrow> nat \<Rightarrow> int \<Rightarrow> World \<Rightarrow> string list \<times> World" where
  "getRow e this registry_position w =
     (let t = tables w this;
          file = seekg registry_position (ifstream_open (path t) (files w));
          file = snd (ifstream_read 255 file);
          file = snd (ifstream_read 4 file);
          file = snd (ifstream_read 8 file)
      in (fst (getRow_cols e (getCols (schema t)) 0 file), w))"

text \<open>\<open>operator<\<close> of \<open>std::pair\<close>.\<close>

definition pair_less :: "int \<times> int \<Rightarrow> int \<times> int \<Rightarrow> bool" where
  "pair_less a b = (fst a < fst b \<or> (\<not> fst b < fst a \<and> snd a < snd b))"

text \<open>\<open>std::lower_bound\<close> on \<open>[first, first + count)\<close>: the binary search of the library.\<close>

function lower_bound :: "(int \<times> int) list \<Rightarrow> nat \<Rightarrow> nat \<Rightarrow> int \<times> int \<Rightarrow> nat" where
  "lower_bound xs first count val =
     (if 0 < count then
        (let step = count div 2; it = first + step
         in if pair_less (xs ! it) val then lower_bound xs (Suc it) (count - (step + 1)) val
            else lower_bound xs first step val)
      else first)"
  by pat_completeness auto
termination
  by (relation "measure (\<lambda>(xs, first, count, val). count)") auto

declare lower_bound.simps [simp del]

text \<open>
  \<open>Table::getRowById\<close>. The distance the binary search returns is stored in
  \<open>int idx\<close>, which keeps its low 32 bits.
\<close>

definition getRowById :: "Env \<Rightarrow> nat \<Rightarrow> int \<Rightarrow> World \<Rightarrow> (exn + string list) \<times> World" where
  "getRowById e this row_id w =
     (let hdr = header (tables w this);
          idx = to_signed 32 (int (lower_bound hdr 0 (length hdr) (row_id, - (2 ^ 63))))
      in case at hdr idx of
           Inl x \<Rightarrow> (Inl x, w)
         | Inr pair \<Rightarrow>
             if fst pair = row_id then (case getRow e this (snd pair) w of (row, w1) \<Rightarrow> (Inr row, w1))
             else (Inr [], w))"

subsection \<open>Joins\<close>

text \<open>
  The loop counters are \<open>int\<close>: the comparison with \<open>header->size()\<close> and \<open>vector::at\<close>
  convert them to \<open>size_t\<close>, and the increment keeps the low 32 bits, as the usual
  targets do on an overflow that the language leaves undefined. The measure below is
  what is left to count before the counter turns negative, where \<open>vector::at\<close> raises.
\<close>

definition int_counter_left :: "int \<Rightarrow> nat" where
  "int_counter_left i =
     nat (if i < 0 then 0 else if i < 2 ^ 31 then 2 ^ 31 - i else 2 ^ 31 + 1)"

lemma to_signed_32_range: "- (2 ^ 31) \<le> to_signed 32 n \<and> to_signed 32 n < 2 ^ 31"
proof -
  have "0 \<le> n mod 4294967296" and "n mod 4294967296 < 4294967296"
    by simp_all
  then show ?thesis
    unfolding to_signed_def by (simp del: pos_mod_sign pos_mod_bound)
qed

lemma to_signed_32_id: "- (2 ^ 31) \<le> n \<Longrightarrow> n < 2 ^ 31 \<Longrightarrow> to_signed 32 n = n"
proof (cases "n < 0")
  case True
  assume a: "- (2 ^ 31) \<le> n" "n < 2 ^ 31"
  have "(n + 4294967296) mod 4294967296 = n + 4294967296"
    using a True by (intro mod_pos_pos_trivial) simp_all
  then have "n mod 4294967296 = n + 4294967296" by simp
  then show ?thesis using a True by (simp add: to_signed_def)
next
  case False
  assume "- (2 ^ 31) \<le> n" "n < 2 ^ 31"
  then show ?thesis using False by (simp add: to_signed_def)
qed

lemma int_counter_left_next:
  assumes "0 \<le> i"
  shows "int_counter_left (to_signed 32 (i + 1)) < int_counter_left i"
proof (cases "i + 1 < 2 ^ 31")
  case True
  then have "to_signed 32 (i + 1) = i + 1"
    using assms by (intro to_signed_32_id) simp_all
  then show ?thesis
    using assms True by (simp add: int_counter_left_def)
next
  case False
  show ?thesis
  proof (cases "i < 2 ^ 31")
    case True
    then have "i + 1 = 2 ^ 31" using False by simp
    then have "to_signed 32 (i + 1) = - (2 ^ 31)"
      by (simp add: to_signed_def)
    then show ?thesis
      using True assms by (simp add: int_counter_left_def)
  next
    case f: False
    have "int (int_counter_left (to_signed 32 (i + 1))) \<le> 2 ^ 31"
      using to_signed_32_range [of "i + 1"] by (simp add: int_counter_left_def)
    moreover have "int (int_counter_left i) = 2 ^ 31 + 1"
      using f assms by (simp add: int_counter_left_def)
    ultimately have "int (int_counter_left (to_signed 32 (i + 1))) < int (int_counter_left i)"
      by simp
    then show ?thesis by (simp only: of_nat_less_iff)
  qed
qed

lemma at_Inr_nonneg: "at xs i = Inr x \<Longrightarrow> 0 \<le> i"
  by (simp add: at_def split: if_splits)

definition row_at :: "Env \<Rightarrow> nat \<Rightarrow> int \<Rightarrow> World \<Rightarrow> string list" where
  "row_at e this pos w = fst (getRow e this pos w)"

lemma getRow_eq: "getRow e this pos w = (row_at e this pos w, w)"
  by (simp add: getRow_def row_at_def Let_def)

text \<open>
  The loop over the outer relation inside \<open>Table::nestedLoopJoin\<close>, for the inner row
  at position \<open>i\<close>; \<open>join_result\<close> is the vector the matches are pushed to, and \<open>calls\<close>
  counts the calls of \<open>getRow\<close> the join has made, each of which has its own stack.
\<close>

function nestedLoopJoin_outer ::
  "Env \<Rightarrow> nat \<Rightarrow> nat \<Rightarrow> int \<Rightarrow> int \<Rightarrow> string list \<Rightarrow> int \<Rightarrow> int \<Rightarrow> nat \<Rightarrow> int list list \<Rightarrow> World
     \<Rightarrow> (exn + int list list \<times> nat) \<times> World" where
  "nestedLoopJoin_outer e this outer_table inner_column_position outer_column_position
       inner_row i j calls join_result w =
     (if to_unsigned 64 j < int (length (header (tables w outer_table))) then
        (case at (header (tables w outer_table)) j of
           Inl x \<Rightarrow> (Inl x, w)
         | Inr outer_entry \<Rightarrow>
             (case getRow (callee e calls) outer_table (snd outer_entry) w of
                (outer_row, w1) \<Rightarrow>
                  (case at inner_row inner_column_position of
                     Inl x \<Rightarrow> (Inl x, w1)
                   | Inr inner_value \<Rightarrow>
                       (case at outer_row outer_column_position of
                          Inl x \<Rightarrow> (Inl x, w1)
                        | Inr outer_value \<Rightarrow>
                            if inner_value = outer_value then
                              (case at (header (tables w1 this)) i of
                                 Inl x \<Rightarrow> (Inl x, w1)
                               | Inr p1 \<Rightarrow>
                                   (case at (header (tables w1 outer_table)) j of
                                      Inl x \<Rightarrow> (Inl x, w1)
                                    | Inr p2 \<Rightarrow>
                                        nestedLoopJoin_outer e this outer_table
                                          inner_column_position outer_column_position inner_row i
                                          (to_signed 32 (j + 1)) (Suc calls)
                                          (join_result @ [[snd p1, snd p2]]) w1))
                            else
                              nestedLoopJoin_outer e this outer_table inner_column_position
                                outer_column_position inner_row i
                                (to_signed 32 (j + 1)) (Suc calls) join_result w1))))
      else (Inr (join_result, calls), w))"
  by pat_completeness auto
termination
  by (relation "measure (\<lambda>(e, this, outer_table, ip, op, inner_row, i, j, calls, jr, w).
                           int_counter_left j)")
     (auto simp: int_counter_left_next dest: at_Inr_nonneg)

declare nestedLoopJoin_outer.simps [simp del]

lemma nestedLoopJoin_outer_world:
  "snd (nestedLoopJoin_outer e this outer_table ip op inner_row i j calls jr w) = w"
proof (induction e this outer_table ip op inner_row i j calls jr w
    rule: nestedLoopJoin_outer.induct)
  case (1 e this outer_table ip op inner_row i j calls jr w)
  show ?case
    apply (subst nestedLoopJoin_outer.simps)
    using "1.IH"
    by (auto simp: getRow_eq split: sum.splits)
qed

definition outer_matches ::
  "Env \<Rightarrow> nat \<Rightarrow> nat \<Rightarrow> int \<Rightarrow> int \<Rightarrow> string list \<Rightarrow> int \<Rightarrow> int \<Rightarrow> nat \<Rightarrow> int list list \<Rightarrow> World
     \<Rightarrow> exn + int list list \<times> nat" where
  "outer_matches e this outer_table ip op inner_row i j calls jr w =
     fst (nestedLoopJoin_outer e this outer_table ip op inner_row i j calls jr w)"

lemma nestedLoopJoin_outer_eq:
  "nestedLoopJoin_outer e this outer_table ip op inner_row i j calls jr w =
     (outer_matches e this outer_table ip op inner_row i j calls jr w, w)"
  using nestedLoopJoin_outer_world [of e this outer_table ip op inner_row i j calls jr w]
  by (simp add: outer_matches_def prod_eq_iff)

text \<open>The loop of \<open>Table::nestedLoopJoin\<close> over the inner relation.\<close>

function nestedLoopJoin_inner ::
  "Env \<Rightarrow> nat \<Rightarrow> nat \<Rightarrow> int \<Rightarrow> int \<Rightarrow> int \<Rightarrow> nat \<Rightarrow> int list list \<Rightarrow> World
     \<Rightarrow> (exn + int list list \<times> nat) \<times> World" where
  "nestedLoopJoin_inner e this outer_table inner_column_position outer_column_position
       i calls join_result w =
     (if to_unsigned 64 i < int (length (header (tables w this))) then
        (case at (header (tables w this)) i of
           Inl x \<Rightarrow> (Inl x, w)
         | Inr inner_entry \<Rightarrow>
             (case getRow (callee e calls) this (snd inner_entry) w of
                (inner_row, w1) \<Rightarrow>
                  (case nestedLoopJoin_outer e this outer_table inner_column_position
                          outer_column_position inner_row i 0 (Suc calls) join_result w1 of
                     (Inl x, w2) \<Rightarrow> (Inl x, w2)
                   | (Inr (join_result2, calls2), w2) \<Rightarrow>
                       nestedLoopJoin_inner e this outer_table inner_column_position
                         outer_column_position (to_signed 32 (i + 1)) calls2 join_result2 w2)))
      else (Inr (join_result, calls), w))"
  by pat_completeness auto
termination
  by (relation "measure (\<lambda>(e, this, outer_table, ip, op, i, calls, jr, w).
                           int_counter_left i)")
     (auto simp: int_counter_left_next dest: at_Inr_nonneg)

declare nestedLoopJoin_inner.simps [simp del]

text \<open>
  \<open>Table::nestedLoopJoin\<close>. The count of the calls is the model's and is not part of
  what the join returns.
\<close>

definition nestedLoopJoin ::
  "Env \<Rightarrow> nat \<Rightarrow> nat \<Rightarrow> string \<Rightarrow> string \<Rightarrow> World \<Rightarrow> (exn + int list list) \<times> World" where
  "nestedLoopJoin e this outer_table outer_column_name inner_column_name w =
     (let inner_column_position = getColPosition (schema (tables w this)) inner_column_name;
          outer_column_position = getColPosition (schema (tables w outer_table)) outer_column_name
      in case nestedLoopJoin_inner e this outer_table inner_column_position
                outer_column_position 0 0 [] w of
           (Inl x, w1) \<Rightarrow> (Inl x, w1)
         | (Inr (join_result, calls), w1) \<Rightarrow> (Inr join_result, w1))"

text \<open>The loop of \<open>Table::indexNestedLoopJoin\<close> over the outer relation.\<close>

function indexNestedLoopJoin_outer ::
  "Env \<Rightarrow> nat \<Rightarrow> nat \<Rightarrow> int \<Rightarrow> int \<Rightarrow> string list \<Rightarrow> int \<Rightarrow> int \<Rightarrow> nat \<Rightarrow> int list list \<Rightarrow> World
     \<Rightarrow> (exn + int list list \<times> nat) \<times> World" where
  "indexNestedLoopJoin_outer e this outer_table inner_column_position outer_column_position
       inner_row inner_index j calls join_result w =
     (if to_unsigned 64 j < int (length (header (tables w outer_table))) then
        (case at (header (tables w outer_table)) j of
           Inl x \<Rightarrow> (Inl x, w)
         | Inr outer_entry \<Rightarrow>
             (case getRow (callee e calls) outer_table (snd outer_entry) w of
                (outer_row, w1) \<Rightarrow>
                  (case at inner_row inner_column_position of
                     Inl x \<Rightarrow> (Inl x, w1)
                   | Inr inner_value \<Rightarrow>
                       (case at outer_row outer_column_position of
                          Inl x \<Rightarrow> (Inl x, w1)
                        | Inr outer_value \<Rightarrow>
                            if inner_value = outer_value then
                              (case at (header (tables w1 this)) inner_index of
                                 Inl x \<Rightarrow> (Inl x, w1)
                               | Inr p1 \<Rightarrow>
                                   (case at (header (tables w1 outer_table)) j of
                                      Inl x \<Rightarrow> (Inl x, w1)
                                    | Inr p2 \<Rightarrow>
                                        indexNestedLoopJoin_outer e this outer_table
                                          inner_column_position outer_column_position inner_row
                                          inner_index (to_signed 32 (j + 1)) (Suc calls)
                                          (join_result @ [[snd p1, snd p2]]) w1))
                            else
                              indexNestedLoopJoin_outer e this outer_table inner_column_position
                                outer_column_position inner_row inner_index
                                (to_signed 32 (j + 1)) (Suc calls) join_result w1))))
      else (Inr (join_result, calls), w))"
  by pat_completeness auto
termination
  by (relation "measure (\<lambda>(e, this, outer_table, ip, op, inner_row, ii, j, calls, jr, w).
                           int_counter_left j)")
     (auto simp: int_counter_left_next dest: at_Inr_nonneg)

declare indexNestedLoopJoin_outer.simps [simp del]

text \<open>\<open>Table::indexNestedLoopJoin\<close>; \<open>inner_index\<close> is a \<open>long\<close>.\<close>

definition indexNestedLoopJoin ::
  "Env \<Rightarrow> nat \<Rightarrow> nat \<Rightarrow> string \<Rightarrow> string \<Rightarrow> int \<Rightarrow> World \<Rightarrow> (exn + int list list) \<times> World" where
  "indexNestedLoopJoin e this outer_table outer_column_name inner_column_name inner_index w =
     (let inner_column_position = getColPosition (schema (tables w this)) inner_column_name;
          outer_column_position = getColPosition (schema (tables w outer_table)) outer_column_name
      in case at (header (tables w this)) inner_index of
           Inl x \<Rightarrow> (Inl x, w)
         | Inr inner_entry \<Rightarrow>
             (case getRow (callee e 0) this (snd inner_entry) w of
                (inner_row, w1) \<Rightarrow>
                  (case indexNestedLoopJoin_outer e this outer_table inner_column_position
                          outer_column_position inner_row inner_index 0 1 [] w1 of
                     (Inl x, w2) \<Rightarrow> (Inl x, w2)
                   | (Inr (join_result, calls), w2) \<Rightarrow> (Inr join_result, w2))))"

section \<open>The reads leave the world as it is\<close>

lemma nestedLoopJoin_inner_world:
  "snd (nestedLoopJoin_inner e this outer_table ip op i calls jr w) = w"
proof (induction e this outer_table ip op i calls jr w rule: nestedLoopJoin_inner.induct)
  case (1 e this outer_table ip op i calls jr w)
  show ?case
    apply (subst nestedLoopJoin_inner.simps)
    using "1.IH"
    by (auto simp: getRow_eq nestedLoopJoin_outer_eq split: sum.splits prod.splits)
qed

lemma indexNestedLoopJoin_outer_world:
  "snd (indexNestedLoopJoin_outer e this outer_table ip op inner_row ii j calls jr w) = w"
proof (induction e this outer_table ip op inner_row ii j calls jr w
    rule: indexNestedLoopJoin_outer.induct)
  case (1 e this outer_table ip op inner_row ii j calls jr w)
  show ?case
    apply (subst indexNestedLoopJoin_outer.simps)
    using "1.IH"
    by (auto simp: getRow_eq split: sum.splits)
qed

lemma getRowById_world: "snd (getRowById e this row_id w) = w"
  by (simp add: getRowById_def Let_def getRow_eq split: sum.splits)

lemma nestedLoopJoin_world:
  "snd (nestedLoopJoin e this outer_table outer_column_name inner_column_name w) = w"
proof -
  let ?run = "nestedLoopJoin_inner e this outer_table
      (getColPosition (schema (tables w this)) inner_column_name)
      (getColPosition (schema (tables w outer_table)) outer_column_name) 0 0 [] w"
  obtain r w1 where x: "?run = (r, w1)" by (cases ?run)
  have "snd ?run = w" by (rule nestedLoopJoin_inner_world)
  then have "w1 = w" by (simp add: x)
  then show ?thesis
    by (simp add: nestedLoopJoin_def Let_def x split: sum.splits prod.splits)
qed

lemma indexNestedLoopJoin_world:
  "snd (indexNestedLoopJoin e this outer_table outer_column_name inner_column_name
         inner_index w) = w"
proof (cases "at (header (tables w this)) inner_index")
  case (Inl x)
  then show ?thesis by (simp add: indexNestedLoopJoin_def Let_def)
next
  case (Inr inner_entry)
  let ?run = "indexNestedLoopJoin_outer e this outer_table
      (getColPosition (schema (tables w this)) inner_column_name)
      (getColPosition (schema (tables w outer_table)) outer_column_name)
      (row_at (callee e 0) this (snd inner_entry) w) inner_index 0 1 [] w"
  obtain r w1 where x: "?run = (r, w1)" by (cases ?run)
  have "snd ?run = w" by (rule indexNestedLoopJoin_outer_world)
  then have "w1 = w" unfolding x by simp
  then show ?thesis
    using x by (simp add: indexNestedLoopJoin_def Let_def Inr getRow_eq split: sum.splits prod.splits)
qed

text \<open>
  C10. The read operations are pure with respect to the store: whatever the world and
  the arguments, \<open>getRow\<close>, \<open>getRowById\<close>, \<open>nestedLoopJoin\<close> and \<open>indexNestedLoopJoin\<close>
  return the world they were given, with every table's in-memory index and every file
  as before the call. This holds also when they raise.
\<close>

theorem reads_leave_the_world:
  "snd (getRow e this pos w) = w
   \<and> snd (getRowById e this row_id w) = w
   \<and> snd (nestedLoopJoin e this outer_table outer_column_name inner_column_name w) = w
   \<and> snd (indexNestedLoopJoin e this outer_table outer_column_name inner_column_name
              inner_index w) = w"
  by (simp add: getRow_eq getRowById_world nestedLoopJoin_world indexNestedLoopJoin_world)

section \<open>Effects of the writes\<close>

lemma run_Nil [simp]: "run [] w = w"
  by (simp add: run_def)

lemma run_Cons [simp]: "run (x # effs) w = run effs (apply_effect x w)"
  by (simp add: run_def)

lemma run_append [simp]: "run (xs @ ys) w = run ys (run xs w)"
  by (simp add: run_def)

fun file_effect :: "effect \<Rightarrow> bool" where
  "file_effect (Create p) = True"
| "file_effect (Write p bs) = True"
| "file_effect (Remove p) = True"
| "file_effect (PushBack this entry) = False"
| "file_effect (Clear this) = False"

lemma file_effect_tables: "file_effect x \<Longrightarrow> tables (apply_effect x w) = tables w"
  by (cases x) simp_all

lemma file_effects_tables: "list_all file_effect effs \<Longrightarrow> tables (run effs w) = tables w"
  by (induction effs arbitrary: w) (simp_all add: file_effect_tables)

lemma insert_cols_file_effects: "list_all file_effect (fst (insert_cols e p cols k row))"
proof (induction row arbitrary: k)
  case Nil
  show ?case by (simp add: insert_cols.simps)
next
  case (Cons v row)
  show ?case
    using Cons.IH [of "Suc k"] by (simp add: insert_cols.simps split_beta split: sum.splits)
qed

lemma to_llong_id: "0 \<le> i \<Longrightarrow> i < 2 ^ 63 \<Longrightarrow> to_llong i = i"
  by (simp add: to_llong_def to_unsigned_def to_signed_def)

definition next_entry :: "nat \<Rightarrow> World \<Rightarrow> int \<times> int" where
  "next_entry this w =
     (to_llong (int (length (header (tables w this)))),
      to_llong (int (length (content (files w) (path (tables w this))))))"

lemma Table_insert_tables:
  "tables (snd (Table_insert e now this row w)) =
     (tables w)(this := (tables w this)\<lparr>header := header (tables w this) @ [next_entry this w]\<rparr>)"
  using insert_cols_file_effects [of e "path (tables w this)" "getCols (schema (tables w this))" 0
      "show_int (to_llong (int (length (header (tables w this))))) # row"]
  by (simp add: Table_insert_def insert_effects_def insertOnHeaderFile_def next_entry_def Let_def
       file_effects_tables split_beta)

lemma Table_insert_result:
  "fst (Table_insert e now this row w) =
     (case snd (insert_cols e (path (tables w this)) (getCols (schema (tables w this))) 0
                  (show_int (fst (next_entry this w)) # row)) of
        Some x \<Rightarrow> Inl x
      | None \<Rightarrow> Inr (fst (next_entry this w)))"
  by (simp add: Table_insert_def insert_effects_def next_entry_def Let_def split_beta
      split: option.splits)

section \<open>Operation sequences\<close>

datatype operation =
    Insert nat int "string list"
  | Drop nat
  | GetRow nat int
  | GetRowById nat int
  | NestedLoopJoin nat nat string string
  | IndexNestedLoopJoin nat nat string string int

fun perform :: "Env \<Rightarrow> operation \<Rightarrow> World \<Rightarrow> World" where
  "perform e (Insert this now row) w = snd (Table_insert e now this row w)"
| "perform e (Drop this) w = Table_drop this w"
| "perform e (GetRow this pos) w = snd (getRow e this pos w)"
| "perform e (GetRowById this row_id) w = snd (getRowById e this row_id w)"
| "perform e (NestedLoopJoin this outer_table outer_column_name inner_column_name) w =
     snd (nestedLoopJoin e this outer_table outer_column_name inner_column_name w)"
| "perform e (IndexNestedLoopJoin this outer_table outer_column_name inner_column_name
       inner_index) w =
     snd (indexNestedLoopJoin e this outer_table outer_column_name inner_column_name
            inner_index w)"

text \<open>A sequence of operations, each in its own environment.\<close>

definition perform_all :: "(Env \<times> operation) list \<Rightarrow> World \<Rightarrow> World" where
  "perform_all ops w = fold (\<lambda>x. perform (fst x) (snd x)) ops w"

text \<open>
  A sequence of inserts into one table, each with its environment and its time: the
  results, and the world afterwards.
\<close>

fun inserts :: "nat \<Rightarrow> (Env \<times> int \<times> string list) list \<Rightarrow> World \<Rightarrow> (exn + int) list" where
  "inserts this [] w = []"
| "inserts this (x # rows) w =
     (case Table_insert (fst x) (fst (snd x)) this (snd (snd x)) w of
        (r, w1) \<Rightarrow> r # inserts this rows w1)"

definition inserted :: "nat \<Rightarrow> (Env \<times> int \<times> string list) list \<Rightarrow> World \<Rightarrow> World" where
  "inserted this rows w =
     perform_all (map (\<lambda>x. (fst x, Insert this (fst (snd x)) (snd (snd x)))) rows) w"

text \<open>The identifiers of the index are \<open>0, 1, 2, \<dots>\<close> in this order.\<close>

definition gapless :: "(int \<times> int) list \<Rightarrow> bool" where
  "gapless hdr = (map fst hdr = map int [0..<length hdr])"

lemma gapless_Nil [simp]: "gapless []"
  by (simp add: gapless_def)

lemma gapless_snoc: "gapless hdr \<Longrightarrow> gapless (hdr @ [(int (length hdr), pos)])"
  by (simp add: gapless_def)

lemma Table_drop_tables:
  "tables (Table_drop this w) = (tables w)(this := (tables w this)\<lparr>header := []\<rparr>)"
  by (simp add: Table_drop_def drop_effects_def)

lemma perform_header:
  assumes "gapless (header (tables w a))" and "length (header (tables w a)) < 2 ^ 63"
  shows "gapless (header (tables (perform e x w) a))
         \<and> length (header (tables (perform e x w) a)) \<le> Suc (length (header (tables w a)))"
proof (cases x)
  case (Insert this now row)
  show ?thesis
  proof (cases "this = a")
    case True
    have "fst (next_entry a w) = int (length (header (tables w a)))"
      using assms(2) by (simp add: next_entry_def to_llong_id)
    then have "next_entry a w = (int (length (header (tables w a))), snd (next_entry a w))"
      by (metis prod.collapse)
    then show ?thesis
      using assms(1) gapless_snoc [of "header (tables w a)" "snd (next_entry a w)"]
      by (simp add: Insert True Table_insert_tables)
  next
    case False
    then show ?thesis using assms(1) by (simp add: Insert Table_insert_tables)
  qed
next
  case (Drop this)
  then show ?thesis using assms(1) by (simp add: Table_drop_tables)
next
  case (GetRow this pos)
  then show ?thesis using assms(1) by (simp add: getRow_eq)
next
  case (GetRowById this row_id)
  then show ?thesis using assms(1) by (simp add: getRowById_world)
next
  case (NestedLoopJoin this outer_table outer_column_name inner_column_name)
  then show ?thesis using assms(1) by (simp add: nestedLoopJoin_world)
next
  case (IndexNestedLoopJoin this outer_table outer_column_name inner_column_name inner_index)
  then show ?thesis using assms(1) by (simp add: indexNestedLoopJoin_world)
qed

lemma perform_all_header:
  "gapless (header (tables w a)) \<Longrightarrow> length (header (tables w a)) + length ops \<le> 2 ^ 63 \<Longrightarrow>
   gapless (header (tables (perform_all ops w) a))
   \<and> length (header (tables (perform_all ops w) a)) \<le> length (header (tables w a)) + length ops"
proof (induction ops arbitrary: w)
  case Nil
  then show ?case by (simp add: perform_all_def)
next
  case (Cons x ops)
  have lt: "length (header (tables w a)) < 2 ^ 63" using Cons.prems(2) by simp
  note step = perform_header [OF Cons.prems(1) lt, of "fst x" "snd x"]
  have "length (header (tables (perform (fst x) (snd x) w) a)) + length ops \<le> 2 ^ 63"
    using step Cons.prems(2) by simp
  from Cons.IH [OF conjunct1 [OF step] this] step
  show ?case by (simp add: perform_all_def)
qed

lemma inserted_Nil [simp]: "inserted this [] w = w"
  by (simp add: inserted_def perform_all_def)

lemma inserted_Cons [simp]:
  "inserted this (x # rows) w =
     inserted this rows (snd (Table_insert (fst x) (fst (snd x)) this (snd (snd x)) w))"
  by (simp add: inserted_def perform_all_def)

lemma inserted_length:
  "length (header (tables (inserted this rows w) this))
     = length (header (tables w this)) + length rows"
proof (induction rows arbitrary: w)
  case Nil
  show ?case by simp
next
  case (Cons x rows)
  show ?case
    by (simp add: Cons.IH Table_insert_tables)
qed

lemma inserts_length [simp]: "length (inserts this rows w) = length rows"
  by (induction rows arbitrary: w) (simp_all add: split_beta)

lemma inserts_nth:
  "length (header (tables w this)) + length rows \<le> 2 ^ 63 \<Longrightarrow> k < length rows \<Longrightarrow>
   inserts this rows w ! k =
     (case snd (insert_cols (fst (rows ! k)) (path (tables w this))
                  (getCols (schema (tables w this))) 0
                  (show_int (int (length (header (tables w this)) + k))
                   # snd (snd (rows ! k)))) of
        Some x \<Rightarrow> Inl x
      | None \<Rightarrow> Inr (int (length (header (tables w this)) + k)))"
proof (induction rows arbitrary: w k)
  case Nil
  then show ?case by simp
next
  case (Cons x rows)
  have id: "fst (next_entry this w) = int (length (header (tables w this)))"
    using Cons.prems(1) by (simp add: next_entry_def to_llong_id)
  show ?case
  proof (cases k)
    case 0
    then show ?thesis
      using Table_insert_result [of "fst x" "fst (snd x)" this "snd (snd x)" w]
      by (simp add: split_beta id split: option.splits)
  next
    case (Suc k')
    let ?w1 = "snd (Table_insert (fst x) (fst (snd x)) this (snd (snd x)) w)"
    have t1: "tables ?w1 this = (tables w this)\<lparr>header := header (tables w this) @ [next_entry this w]\<rparr>"
      by (simp add: Table_insert_tables)
    have "length (header (tables ?w1 this)) + length rows \<le> 2 ^ 63"
      using Cons.prems(1) by (simp add: t1)
    moreover have "k' < length rows" using Cons.prems(2) Suc by simp
    ultimately show ?thesis
      using Cons.IH [of ?w1 k']
      by (simp add: Suc split_beta t1 split: option.splits)
  qed
qed

section \<open>A concrete instance: the stores Person and Worked\<close>

definition env0 :: Env where
  "env0 = \<lparr>atof_float = (\<lambda>s. 0), atof_double = (\<lambda>s. 0),
           show_float = (\<lambda>bits. ''0''), show_double = (\<lambda>bits. ''0''), stack = (\<lambda>i. []),
           callee_stack = (\<lambda>k i. [])\<rparr>"

definition person_schema :: Schema where
  "person_schema =
     \<lparr>getCols = [\<lparr>col_name = ''_id'', col_type = INT64, getSize = 8\<rparr>,
                 \<lparr>col_name = ''dre'', col_type = INT32, getSize = 4\<rparr>,
                 \<lparr>col_name = ''name'', col_type = CHAR_T, getSize = 20\<rparr>],
      getColPosition = (\<lambda>n. if n = ''_id'' then 0 else if n = ''dre'' then 1
                            else if n = ''name'' then 2 else - 1)\<rparr>"

definition worked_schema :: Schema where
  "worked_schema =
     \<lparr>getCols = [\<lparr>col_name = ''_id'', col_type = INT64, getSize = 8\<rparr>,
                 \<lparr>col_name = ''id_company'', col_type = INT32, getSize = 4\<rparr>,
                 \<lparr>col_name = ''id_person'', col_type = FOREIGN_KEY, getSize = 8\<rparr>],
      getColPosition = (\<lambda>n. if n = ''_id'' then 0 else if n = ''id_company'' then 1
                            else if n = ''id_person'' then 2 else - 1)\<rparr>"

text \<open>
  Two tables freshly opened on a file system without files: Person at address 0, Worked
  at address 1.
\<close>

definition world0 :: World where
  "world0 =
     \<lparr>tables = (\<lambda>a. if a = 0 then new_Table ''Person'' person_schema Map.empty
                     else new_Table ''Worked'' worked_schema Map.empty),
      files = Map.empty\<rparr>"

section \<open>Row identifiers\<close>

lemma new_Table_header:
  "fls (nm @ ''_h.dat'') = None \<Longrightarrow> header (new_Table nm sch fls) = []"
  by (simp add: new_Table_def loadHeader_def ifstream_open_def
      loadHeader_loop.simps ifstream_read_def)

text \<open>
  C3, as the code has it. On a store whose in-memory index is empty, as that of a store
  freshly opened without an index file is, the insert at position \<open>k\<close> of a sequence of
  inserts (counted from 0) is given the row identifier \<open>k\<close>: it returns \<open>k\<close> unless the
  loop over its columns raises, in which case it returns nothing. Whether it returns or
  raises, its entry is in the index: after the sequence the identifiers in the index are
  \<open>0, 1, 2, \<dots>\<close>, one for each insert. And after every sequence of operations, on this
  table or on others, each in its own environment, the identifiers in the in-memory
  index are \<open>0, 1, 2, \<dots>\<close> in this order: each equals the position of its entry. The
  sequences are shorter than \<open>2 ^ 63\<close>, the range of the identifier.
\<close>

theorem row_ids_follow_insertion_order:
  assumes "header (tables w this) = []"
    and "length rows \<le> 2 ^ 63" and "k < length rows"
    and "length ops \<le> 2 ^ 63"
  shows "inserts this rows w ! k =
           (case snd (insert_cols (fst (rows ! k)) (path (tables w this))
                        (getCols (schema (tables w this))) 0
                        (show_int (int k) # snd (snd (rows ! k)))) of
              Some x \<Rightarrow> Inl x
            | None \<Rightarrow> Inr (int k))
         \<and> map fst (header (tables (inserted this rows w) this)) = map int [0..<length rows]
         \<and> gapless (header (tables (perform_all ops w) this))"
proof (intro conjI)
  show "inserts this rows w ! k =
           (case snd (insert_cols (fst (rows ! k)) (path (tables w this))
                        (getCols (schema (tables w this))) 0
                        (show_int (int k) # snd (snd (rows ! k)))) of
              Some x \<Rightarrow> Inl x
            | None \<Rightarrow> Inr (int k))"
    using inserts_nth [of w this rows k] assms(1,2,3) by (simp split: option.splits)
  have "gapless (header (tables (inserted this rows w) this))"
    unfolding inserted_def
    using perform_all_header [of w this
        "map (\<lambda>x. (fst x, Insert this (fst (snd x)) (snd (snd x)))) rows"] assms(1,2)
    by simp
  then show "map fst (header (tables (inserted this rows w) this)) = map int [0..<length rows]"
    using inserted_length [of this rows w] assms(1) by (simp add: gapless_def)
  show "gapless (header (tables (perform_all ops w) this))"
    using perform_all_header [of w this ops] assms(1,4) by simp
qed

text \<open>
  Two inserts into the empty Worked, the first of which raises: the second returns the
  identifier 1, and the index holds the identifiers 0 and 1.
\<close>

theorem row_ids_follow_insertion_order_witness:
  "header (tables world0 1) = []
   \<and> inserts 1 [(env0, 5, [''77'', ''abc'']), (env0, 6, [''77'', ''9''])] world0 ! 1 = Inr 1
   \<and> map fst (header (tables
        (inserted 1 [(env0, 5, [''77'', ''abc'']), (env0, 6, [''77'', ''9''])] world0) 1))
       = [0, 1]
   \<and> gapless (header (tables (perform_all
        [(env0, Insert 0 5 [''9'', ''Jhoe'']), (env0, GetRowById 0 0),
         (env0, Insert 1 6 [''77'', ''9'']), (env0, Drop 1),
         (env0, Insert 0 7 [''10'', ''Marta''])] world0) 0))"
proof -
  have h: "header (tables world0 1) = []" "header (tables world0 0) = []"
    by (simp_all add: world0_def new_Table_header)
  have c: "snd (insert_cols (fst ([(env0, 5, [''77'', ''abc'']), (env0, 6, [''77'', ''9''])] ! 1))
                 (path (tables world0 1)) (getCols (schema (tables world0 1))) 0
                 (show_int (int 1)
                  # snd (snd ([(env0, 5, [''77'', ''abc'']), (env0, 6, [''77'', ''9''])] ! 1))))
           = None"
    by code_simp
  have a: "inserts 1 [(env0, 5, [''77'', ''abc'']), (env0, 6, [''77'', ''9''])] world0 ! 1 = Inr 1
     \<and> map fst (header (tables
          (inserted 1 [(env0, 5, [''77'', ''abc'']), (env0, 6, [''77'', ''9''])] world0) 1))
         = [0, 1]"
    using row_ids_follow_insertion_order [of world0 1
        "[(env0, 5, [''77'', ''abc'']), (env0, 6, [''77'', ''9''])]" 1 "[]"] h(1) c
    by (simp del: inserts.simps inserted_Cons inserted_Nil)
  have b: "gapless (header (tables (perform_all
        [(env0, Insert 0 5 [''9'', ''Jhoe'']), (env0, GetRowById 0 0),
         (env0, Insert 1 6 [''77'', ''9'']), (env0, Drop 1),
         (env0, Insert 0 7 [''10'', ''Marta''])] world0) 0))"
    using row_ids_follow_insertion_order [of world0 0
        "[(env0, 5, [''9'', ''Jhoe''])]" 0
        "[(env0, Insert 0 5 [''9'', ''Jhoe'']), (env0, GetRowById 0 0),
          (env0, Insert 1 6 [''77'', ''9'']), (env0, Drop 1),
          (env0, Insert 0 7 [''10'', ''Marta''])]"] h(2)
    by (simp del: inserts.simps inserted_Cons inserted_Nil)
  show ?thesis using h(1) a b by (simp del: inserts.simps inserted_Cons inserted_Nil)
qed

text \<open>
  Against C3 as stated: the first insert into the empty Worked is given \<open>abc\<close> for the
  foreign key. It does not return the identifier 0: it raises, and the identifier 0 is
  used up, the insert that follows returning 1.
\<close>

theorem first_insert_raises_counterexample:
  "header (tables world0 1) = []
   \<and> inserts 1 [(env0, 5, [''77'', ''abc'']), (env0, 6, [''77'', ''9''])] world0
       = [Inl invalid_argument, Inr 1]"
  by code_simp

section \<open>What an insert writes\<close>

lemma length_le_bytes [simp]: "length (le_bytes n v) = n"
  by (induction n arbitrary: v) simp_all

lemma length_strncpy [simp]: "length (strncpy n s) = n"
  by (simp add: strncpy_def)

lemma length_bytes_of_llong [simp]: "length (bytes_of_llong v) = 8"
  by (simp add: bytes_of_llong_def)

lemma length_bytes_of_int [simp]: "length (bytes_of_int v) = 4"
  by (simp add: bytes_of_int_def)

lemma length_bytes_of_unsigned [simp]: "length (bytes_of_unsigned v) = 4"
  by (simp add: bytes_of_unsigned_def)

lemma length_write_obj [simp]: "length (write_obj n obj mem) = n"
  by (simp add: write_obj_def)

lemma write_obj_whole: "length obj = n \<Longrightarrow> write_obj n obj mem = obj"
  by (simp add: write_obj_def)

text \<open>The record header as \<open>insert\<close> writes it.\<close>

definition registry_header_bytes :: "Table \<Rightarrow> int \<Rightarrow> byte list" where
  "registry_header_bytes t now =
     strncpy 255 (name t)
     @ bytes_of_unsigned (int (HEADER_SIZE t + schema_getSize (schema t)))
     @ bytes_of_llong now"

lemma length_registry_header_bytes [simp]: "length (registry_header_bytes t now) = 267"
  by (simp add: registry_header_bytes_def)

fun writes_to :: "string \<Rightarrow> effect \<Rightarrow> bool" where
  "writes_to p (Write q bs) = (q = p)"
| "writes_to p (Create q) = False"
| "writes_to p (PushBack this entry) = False"
| "writes_to p (Remove q) = False"
| "writes_to p (Clear this) = False"

fun written :: "effect \<Rightarrow> byte list" where
  "written (Write q bs) = bs"
| "written (Create q) = []"
| "written (PushBack this entry) = []"
| "written (Remove q) = []"
| "written (Clear this) = []"

lemma content_upd_same [simp]: "content (f(p \<mapsto> bs)) p = bs"
  by (simp add: content_def)

lemma content_upd_other [simp]: "q \<noteq> p \<Longrightarrow> content (f(q \<mapsto> bs)) p = content f p"
  by (simp add: content_def)

lemma content_remove_same [simp]: "content (f(p := None)) p = []"
  by (simp add: content_def)

lemma content_remove_other [simp]: "q \<noteq> p \<Longrightarrow> content (f(q := None)) p = content f p"
  by (simp add: content_def)

lemma run_writes:
  "list_all (writes_to p) effs \<Longrightarrow> effs \<noteq> [] \<Longrightarrow>
   run effs w = w\<lparr>files := (files w)(p \<mapsto> content (files w) p @ concat (map written effs))\<rparr>"
proof (induction effs arbitrary: w)
  case Nil
  then show ?case by simp
next
  case (Cons x effs)
  from Cons.prems(1) obtain bs where x: "x = Write p bs"
    by (cases x) simp_all
  let ?w1 = "w\<lparr>files := (files w)(p \<mapsto> content (files w) p @ bs)\<rparr>"
  have step: "run (x # effs) w = run effs ?w1"
    by (simp add: x)
  show ?case
  proof (cases "effs = []")
    case True
    then show ?thesis by (simp only: step) (simp add: x fun_upd_def)
  next
    case False
    have "list_all (writes_to p) effs" using Cons.prems(1) by simp
    from Cons.IH [OF this False, of ?w1]
    have "run effs ?w1 =
            ?w1\<lparr>files := (files ?w1)(p \<mapsto> content (files ?w1) p @ concat (map written effs))\<rparr>" .
    also have "\<dots> = w\<lparr>files := (files w)(p \<mapsto> content (files w) p @ concat (map written (x # effs)))\<rparr>"
      by (simp add: x)
    finally show ?thesis by (simp only: step)
  qed
qed

lemma insert_cols_writes: "list_all (writes_to p) (fst (insert_cols e p cols k row))"
proof (induction row arbitrary: k)
  case Nil
  show ?case by (simp add: insert_cols.simps)
next
  case (Cons v row)
  show ?case
    using Cons.IH [of "Suc k"] by (simp add: insert_cols.simps split_beta split: sum.splits)
qed

text \<open>The bytes of the record that \<open>insert\<close> appends to the data file.\<close>

definition record_bytes :: "Env \<Rightarrow> int \<Rightarrow> nat \<Rightarrow> string list \<Rightarrow> World \<Rightarrow> byte list" where
  "record_bytes e now this row w =
     registry_header_bytes (tables w this) now
     @ concat (map written (fst (insert_cols e (path (tables w this))
         (getCols (schema (tables w this))) 0 (show_int (fst (next_entry this w)) # row))))"

lemma insert_effects_eq:
  "fst (insert_effects e now this row w) =
     Create (path (tables w this))
     # insertOnHeaderFile this \<lparr>hf_id = fst (next_entry this w),
          hf_registry_position = snd (next_entry this w),
          hf_path = header_file_path (tables w this)\<rparr>
     @ [Write (path (tables w this)) (strncpy 255 (name (tables w this))),
        Write (path (tables w this))
          (bytes_of_unsigned (int (HEADER_SIZE (tables w this) + schema_getSize (schema (tables w this))))),
        Write (path (tables w this)) (bytes_of_llong now)]
     @ fst (insert_cols e (path (tables w this)) (getCols (schema (tables w this))) 0
          (show_int (fst (next_entry this w)) # row))"
  by (simp add: insert_effects_def next_entry_def Let_def split_beta)

lemma Table_insert_files:
  assumes "path (tables w this) \<noteq> header_file_path (tables w this)"
  shows "files (snd (Table_insert e now this row w)) =
     (files w)
       (header_file_path (tables w this) \<mapsto>
          content (files w) (header_file_path (tables w this))
          @ bytes_of_llong (fst (next_entry this w)) @ bytes_of_llong (snd (next_entry this w)),
        path (tables w this) \<mapsto>
          content (files w) (path (tables w this)) @ record_bytes e now this row w)"
proof -
  let ?t = "tables w this"
  let ?cols = "fst (insert_cols e (path ?t) (getCols (schema ?t)) 0
                 (show_int (fst (next_entry this w)) # row))"
  let ?data = "[Write (path ?t) (strncpy 255 (name ?t)),
        Write (path ?t) (bytes_of_unsigned (int (HEADER_SIZE ?t + schema_getSize (schema ?t)))),
        Write (path ?t) (bytes_of_llong now)] @ ?cols"
  have w: "list_all (writes_to (path ?t)) ?data"
    using insert_cols_writes [of "path ?t" e "getCols (schema ?t)" 0] by simp
  have ne: "?data \<noteq> []" by simp
  have c: "concat (map written ?data) = record_bytes e now this row w"
    by (simp add: record_bytes_def registry_header_bytes_def)
  let ?A = "Create (path ?t)
     # insertOnHeaderFile this \<lparr>hf_id = fst (next_entry this w),
          hf_registry_position = snd (next_entry this w),
          hf_path = header_file_path ?t\<rparr>"
  have "snd (Table_insert e now this row w) = run ?data (run ?A w)"
    by (simp add: Table_insert_def split_beta insert_effects_eq)
  also have "\<dots> = (run ?A w)\<lparr>files := (files (run ?A w))(path ?t \<mapsto>
       content (files (run ?A w)) (path ?t) @ record_bytes e now this row w)\<rparr>"
    using run_writes [OF w ne, of "run ?A w"] by (simp only: c)
  finally show ?thesis
    using assms by (simp add: insertOnHeaderFile_def fun_upd_twist)
qed

text \<open>Effects that remove nothing: files stay and do not shrink, indexes do not shrink.\<close>

fun keeps :: "effect \<Rightarrow> bool" where
  "keeps (Create p) = True"
| "keeps (Write p bs) = True"
| "keeps (PushBack this entry) = True"
| "keeps (Remove p) = False"
| "keeps (Clear this) = False"

lemma keeps_file: "keeps x \<Longrightarrow> files w p \<noteq> None \<Longrightarrow> files (apply_effect x w) p \<noteq> None"
  by (cases x) simp_all

lemma keep_files: "list_all keeps effs \<Longrightarrow> files w p \<noteq> None \<Longrightarrow> files (run effs w) p \<noteq> None"
proof (induction effs arbitrary: w)
  case Nil
  then show ?case by simp
next
  case (Cons x effs)
  have "files (apply_effect x w) p \<noteq> None"
    using Cons.prems by (simp add: keeps_file)
  moreover have "list_all keeps effs" using Cons.prems(1) by simp
  ultimately show ?case using Cons.IH [of "apply_effect x w"] by simp
qed

lemma keeps_length:
  "keeps x \<Longrightarrow> length (content (files w) p) \<le> length (content (files (apply_effect x w)) p)"
  by (cases x) (simp_all add: content_def)

lemma keep_lengths:
  "list_all keeps effs \<Longrightarrow> length (content (files w) p) \<le> length (content (files (run effs w)) p)"
proof (induction effs arbitrary: w)
  case Nil
  show ?case by simp
next
  case (Cons x effs)
  have "length (content (files w) p) \<le> length (content (files (apply_effect x w)) p)"
    using Cons.prems by (simp add: keeps_length)
  also have "\<dots> \<le> length (content (files (run effs (apply_effect x w))) p)"
    using Cons.IH [of "apply_effect x w"] Cons.prems by simp
  finally show ?case by simp
qed

lemma writes_keep: "list_all (writes_to p) effs \<Longrightarrow> list_all keeps effs"
proof (induction effs)
  case Nil
  show ?case by simp
next
  case (Cons x effs)
  then show ?case by (cases x) simp_all
qed

lemma insert_effects_keep: "list_all keeps (fst (insert_effects e now this row w))"
  using writes_keep [OF insert_cols_writes]
  by (simp add: insert_effects_eq insertOnHeaderFile_def)

lemma Table_insert_creates:
  "files (snd (Table_insert e now this row w)) (path (tables w this)) \<noteq> None
   \<and> files (snd (Table_insert e now this row w)) (header_file_path (tables w this)) \<noteq> None"
proof -
  let ?t = "tables w this"
  let ?rest = "[Write (header_file_path ?t) (bytes_of_llong (fst (next_entry this w))),
      Write (header_file_path ?t) (bytes_of_llong (snd (next_entry this w))),
      PushBack this (next_entry this w),
      Write (path ?t) (strncpy 255 (name ?t)),
      Write (path ?t) (bytes_of_unsigned (int (HEADER_SIZE ?t + schema_getSize (schema ?t)))),
      Write (path ?t) (bytes_of_llong now)]
     @ fst (insert_cols e (path ?t) (getCols (schema ?t)) 0
          (show_int (fst (next_entry this w)) # row))"
  let ?w2 = "run [Create (path ?t), Create (header_file_path ?t)] w"
  have k: "list_all keeps ?rest"
    using writes_keep [OF insert_cols_writes] by simp
  have r: "snd (Table_insert e now this row w) = run ?rest ?w2"
    by (simp add: Table_insert_def split_beta insert_effects_eq insertOnHeaderFile_def)
  have f1: "files ?w2 (path ?t) \<noteq> None" by simp
  have f2: "files ?w2 (header_file_path ?t) \<noteq> None" by simp
  show ?thesis
    unfolding r using keep_files [OF k f1] keep_files [OF k f2] by (rule conjI)
qed

section \<open>After \<open>drop\<close>\<close>

lemma Table_drop_files:
  "files (Table_drop this w) =
     (files w)(path (tables w this) := None, header_file_path (tables w this) := None)"
  by (simp add: Table_drop_def drop_effects_def)

lemma length_getRow_cols: "length (fst (getRow_cols e cols i f)) = length cols"
  by (induction cols arbitrary: i f) (simp_all add: split_beta)

lemma length_getRow:
  "length (fst (getRow e this pos w)) = length (getCols (schema (tables w this)))"
  by (simp add: getRow_def Let_def length_getRow_cols)

lemma next_entry_dropped: "next_entry this (Table_drop this w) = (0, 0)"
  by (simp add: next_entry_def Table_drop_tables Table_drop_files to_llong_id content_def)

text \<open>
  C9, as the code has it. After \<open>drop\<close> the in-memory index is empty (\<open>row_count\<close> is 0) and
  both backing files are absent. The table keeps no trace of having been dropped: an
  insert that follows is carried out as on an empty store, it is given the row
  identifier 0 (and returns it unless a column raises), indexes the row at offset 0
  and creates both files again; \<open>getRow\<close> still returns a row, of one text per schema
  column; \<open>getRowById\<close> does what it does on a store freshly opened without files,
  looking the identifier up in an empty index.
\<close>

theorem drop_empties_the_store:
  "header (tables (Table_drop this w) this) = []
   \<and> files (Table_drop this w) (path (tables w this)) = None
   \<and> files (Table_drop this w) (header_file_path (tables w this)) = None
   \<and> fst (Table_insert e now this row (Table_drop this w)) =
       (case snd (insert_cols e (path (tables w this)) (getCols (schema (tables w this))) 0
                    (show_int 0 # row)) of
          Some x \<Rightarrow> Inl x
        | None \<Rightarrow> Inr 0)
   \<and> header (tables (snd (Table_insert e now this row (Table_drop this w))) this) = [(0, 0)]
   \<and> files (snd (Table_insert e now this row (Table_drop this w))) (path (tables w this)) \<noteq> None
   \<and> files (snd (Table_insert e now this row (Table_drop this w)))
         (header_file_path (tables w this)) \<noteq> None
   \<and> length (fst (getRow e this pos (Table_drop this w))) = length (getCols (schema (tables w this)))
   \<and> fst (getRowById e this row_id (Table_drop this w))
       = fst (getRowById e this row_id
                \<lparr>tables = (\<lambda>a. new_Table nm sch Map.empty), files = Map.empty\<rparr>)"
proof -
  let ?w1 = "Table_drop this w"
  have t: "tables ?w1 this = (tables w this)\<lparr>header := []\<rparr>"
    by (simp add: Table_drop_tables)
  have c1: "header (tables ?w1 this) = []" by (simp add: t)
  have c2: "files ?w1 (path (tables w this)) = None"
    and c3: "files ?w1 (header_file_path (tables w this)) = None"
    by (simp_all add: Table_drop_files)
  have c4: "fst (Table_insert e now this row ?w1) =
       (case snd (insert_cols e (path (tables w this)) (getCols (schema (tables w this))) 0
                    (show_int 0 # row)) of
          Some x \<Rightarrow> Inl x
        | None \<Rightarrow> Inr 0)"
    by (simp add: Table_insert_result next_entry_dropped t split: option.splits)
  have c5: "header (tables (snd (Table_insert e now this row ?w1)) this) = [(0, 0)]"
    by (simp add: Table_insert_tables next_entry_dropped t)
  have c67: "files (snd (Table_insert e now this row ?w1)) (path (tables w this)) \<noteq> None
     \<and> files (snd (Table_insert e now this row ?w1)) (header_file_path (tables w this)) \<noteq> None"
    using Table_insert_creates [of e now this row ?w1] by (simp add: t)
  have c8: "length (fst (getRow e this pos ?w1)) = length (getCols (schema (tables w this)))"
    by (simp add: length_getRow t)
  have c9: "fst (getRowById e this row_id ?w1)
       = fst (getRowById e this row_id
                \<lparr>tables = (\<lambda>a. new_Table nm sch Map.empty), files = Map.empty\<rparr>)"
  proof -
    have lb: "lower_bound [] 0 0 v = 0" for v
      by (simp add: lower_bound.simps)
    have "fst (getRowById e this row_id W) = Inl out_of_range"
      if "header (tables W this) = []" for W
      using that by (simp add: getRowById_def Let_def lb at_def)
    then show ?thesis
      by (simp add: t new_Table_header)
  qed
  show ?thesis
    using c1 c2 c3 c4 c5 c67 c8 c9 by blast
qed

text \<open>
  Against C9 as stated: Person with one row is dropped; the insert that follows does not
  fail, it returns the row identifier 0, and \<open>getRow\<close> returns a row.
\<close>

theorem insert_after_drop_counterexample:
  "header (tables (snd (Table_insert env0 5 0 [''9'', ''Jhoe''] world0)) 0) = [(0, 0)]
   \<and> fst (Table_insert env0 8 0 [''10'', ''Marta'']
         (Table_drop 0 (snd (Table_insert env0 5 0 [''9'', ''Jhoe''] world0)))) = Inr 0
   \<and> fst (getRow env0 0 0
         (Table_drop 0 (snd (Table_insert env0 5 0 [''9'', ''Jhoe''] world0)))) = [''0'', ''0'', '''']"
  by code_simp

section \<open>The index and the data file during an insert\<close>

text \<open>
  The record an index entry points to lies within the data: it starts at the offset of
  the entry and has the size the table gives its records, header included.
\<close>

definition record_in_file :: "Table \<Rightarrow> byte list \<Rightarrow> int \<times> int \<Rightarrow> bool" where
  "record_in_file t data entry =
     (0 \<le> snd entry
      \<and> snd entry + int (HEADER_SIZE t + schema_getSize (schema t)) \<le> int (length data))"

text \<open>No entry of the in-memory index of a table points past the end of its data file.\<close>

definition index_in_file :: "nat \<Rightarrow> World \<Rightarrow> bool" where
  "index_in_file this w =
     list_all (record_in_file (tables w this) (content (files w) (path (tables w this))))
       (header (tables w this))"

lemma record_in_file_mono:
  "record_in_file t data entry \<Longrightarrow> length data \<le> length data' \<Longrightarrow>
   record_in_file t data' entry"
  by (simp add: record_in_file_def)

lemma records_in_file_mono:
  "list_all (record_in_file t data) hdr \<Longrightarrow> length data \<le> length data' \<Longrightarrow>
   list_all (record_in_file t data') hdr"
  by (induction hdr) (auto intro: record_in_file_mono)

lemma record_in_file_header [simp]:
  "record_in_file (t\<lparr>header := h\<rparr>) data = record_in_file t data"
  by (rule ext) (simp add: record_in_file_def)

lemma convertAndSave_length:
  "wf_col c \<Longrightarrow> convertAndSave e v c = Inr bs \<Longrightarrow> length bs = getSize c"
  by (cases "col_type c")
     (auto simp: convertAndSave_def wf_col_def write_obj_def split: sum.splits)

lemma insert_cols_length:
  "snd (insert_cols e p cols k row) = None \<Longrightarrow> k + length row = length cols \<Longrightarrow>
   list_all wf_col cols \<Longrightarrow>
   length (concat (map written (fst (insert_cols e p cols k row))))
     = sum_list (map getSize (drop k cols))"
proof (induction row arbitrary: k)
  case Nil
  then show ?case by (simp add: insert_cols.simps)
next
  case (Cons v row)
  have k: "k < length cols" using Cons.prems(2) by simp
  then have a: "at cols (int k) = Inr (cols ! k)" by (simp add: at_def)
  have wf: "wf_col (cols ! k)" using Cons.prems(3) k by (simp add: list_all_length)
  obtain bs where c: "convertAndSave (callee e k) v (cols ! k) = Inr bs"
    using Cons.prems(1)
    by (cases "convertAndSave (callee e k) v (cols ! k)") (simp_all add: insert_cols.simps a)
  have n: "snd (insert_cols e p cols (Suc k) row) = None"
    using Cons.prems(1) by (simp add: insert_cols.simps a c split_beta)
  have "length (concat (map written (fst (insert_cols e p cols (Suc k) row))))
          = sum_list (map getSize (drop (Suc k) cols))"
    using Cons.IH [OF n _ Cons.prems(3)] Cons.prems(2) by simp
  moreover have "drop k cols = cols ! k # drop (Suc k) cols"
    using k by (simp add: Cons_nth_drop_Suc)
  ultimately show ?case
    using convertAndSave_length [OF wf c] by (simp add: insert_cols.simps a c split_beta)
qed

lemma length_record_bytes:
  assumes "snd (insert_effects e now this row w) = Inr r"
    and "Suc (length row) = length (getCols (schema (tables w this)))"
    and "list_all wf_col (getCols (schema (tables w this)))"
  shows "length (record_bytes e now this row w) = 267 + schema_getSize (schema (tables w this))"
proof -
  have "snd (insert_cols e (path (tables w this)) (getCols (schema (tables w this))) 0
               (show_int (fst (next_entry this w)) # row)) = None"
    using assms(1)
    by (simp add: insert_effects_def next_entry_def Let_def split_beta split: option.splits)
  from insert_cols_length [OF this _ assms(3)] assms(2)
  show ?thesis by (simp add: record_bytes_def schema_getSize_def)
qed

lemma Table_insert_run:
  "snd (Table_insert e now this row w) = run (fst (insert_effects e now this row w)) w"
  by (simp add: Table_insert_def split_beta)

text \<open>The writes of \<open>insert\<close> to the data file, all of them after \<open>insertOnHeaderFile\<close>.\<close>

definition data_writes :: "Env \<Rightarrow> int \<Rightarrow> nat \<Rightarrow> string list \<Rightarrow> World \<Rightarrow> effect list" where
  "data_writes e now this row w =
     [Write (path (tables w this)) (strncpy 255 (name (tables w this))),
      Write (path (tables w this))
        (bytes_of_unsigned (int (HEADER_SIZE (tables w this) + schema_getSize (schema (tables w this))))),
      Write (path (tables w this)) (bytes_of_llong now)]
     @ fst (insert_cols e (path (tables w this)) (getCols (schema (tables w this))) 0
          (show_int (fst (next_entry this w)) # row))"

definition index_append :: "nat \<Rightarrow> World \<Rightarrow> effect list" where
  "index_append this w =
     insertOnHeaderFile this \<lparr>hf_id = fst (next_entry this w),
        hf_registry_position = snd (next_entry this w),
        hf_path = header_file_path (tables w this)\<rparr>"

text \<open>
  C1, as the code has it. \<open>insert\<close> opens the data file, then appends the pair of the row
  identifier and the offset to the index file and to the in-memory index, and only then
  writes the record header and the column values to the data file. The offset is the
  length of the data file at entry, so that right after the append the new entry points
  at the end of the data file, where its record is not yet. The entries that were in the
  index before the call stay within the data file after every prefix of the steps of
  \<open>insert\<close>; and once \<open>insert\<close> has returned an identifier for a row of the arity of the
  schema, whose columns have the sizes of their types, the new entry lies within the data
  file as well.
\<close>

theorem insert_appends_to_the_index_first:
  assumes "path (tables w this) \<noteq> header_file_path (tables w this)"
    and "index_in_file this w"
    and "length (content (files w) (path (tables w this))) < 2 ^ 63"
    and "HEADER_SIZE (tables w this) = 255 + 4 + 8"
  shows "fst (insert_effects e now this row w) =
           Create (path (tables w this)) # index_append this w @ data_writes e now this row w
         \<and> list_all (writes_to (path (tables w this))) (data_writes e now this row w)
         \<and> header (tables (run (Create (path (tables w this)) # index_append this w) w) this)
             = header (tables w this) @ [next_entry this w]
         \<and> files (run (Create (path (tables w this)) # index_append this w) w)
               (header_file_path (tables w this))
             = Some (content (files w) (header_file_path (tables w this))
                     @ bytes_of_llong (fst (next_entry this w))
                     @ bytes_of_llong (snd (next_entry this w)))
         \<and> content (files (run (Create (path (tables w this)) # index_append this w) w))
               (path (tables w this))
             = content (files w) (path (tables w this))
         \<and> \<not> index_in_file this (run (Create (path (tables w this)) # index_append this w) w)
         \<and> list_all (record_in_file (tables w this)
               (content (files (run (take n (fst (insert_effects e now this row w))) w))
                  (path (tables w this))))
             (header (tables w this))
         \<and> (snd (insert_effects e now this row w) = Inr (fst (next_entry this w))
              \<and> Suc (length row) = length (getCols (schema (tables w this)))
              \<and> list_all wf_col (getCols (schema (tables w this)))
              \<longrightarrow> index_in_file this (snd (Table_insert e now this row w)))"
proof -
  let ?t = "tables w this"
  let ?effs = "fst (insert_effects e now this row w)"
  define w5 where "w5 = run (Create (path ?t) # index_append this w) w"
  have pos: "snd (next_entry this w) = int (length (content (files w) (path ?t)))"
    using assms(3) by (simp add: next_entry_def to_llong_id)
  have c1: "?effs = Create (path ?t) # index_append this w @ data_writes e now this row w"
    by (simp add: insert_effects_eq index_append_def data_writes_def)
  have c2: "list_all (writes_to (path ?t)) (data_writes e now this row w)"
    using insert_cols_writes [of "path ?t" e "getCols (schema ?t)" 0]
    by (simp add: data_writes_def)
  have c3: "header (tables w5 this) = header ?t @ [next_entry this w]"
    by (simp add: w5_def index_append_def insertOnHeaderFile_def)
  have c4: "files w5 (header_file_path ?t)
             = Some (content (files w) (header_file_path ?t)
                     @ bytes_of_llong (fst (next_entry this w))
                     @ bytes_of_llong (snd (next_entry this w)))"
    using assms(1) by (simp add: w5_def index_append_def insertOnHeaderFile_def)
  have c5: "content (files w5) (path ?t) = content (files w) (path ?t)"
    using assms(1) by (simp add: w5_def index_append_def insertOnHeaderFile_def)
  have t5: "tables w5 this = ?t\<lparr>header := header ?t @ [next_entry this w]\<rparr>"
    by (simp add: w5_def index_append_def insertOnHeaderFile_def)
  have "\<not> record_in_file ?t (content (files w) (path ?t)) (next_entry this w)"
    using assms(4) by (simp add: record_in_file_def pos)
  then have c6: "\<not> index_in_file this w5"
    by (simp add: index_in_file_def t5 c5)
  have c7: "list_all (record_in_file ?t (content (files (run (take n ?effs) w)) (path ?t)))
             (header ?t)"
  proof -
    have "list_all keeps (take n ?effs)"
      using insert_effects_keep [of e now this row w]
      by (auto simp: list_all_iff dest: in_set_takeD)
    from keep_lengths [OF this, of w "path ?t"] assms(2)
    show ?thesis
      by (auto simp: index_in_file_def intro: records_in_file_mono)
  qed
  have c8: "snd (insert_effects e now this row w) = Inr (fst (next_entry this w))
              \<and> Suc (length row) = length (getCols (schema ?t))
              \<and> list_all wf_col (getCols (schema ?t))
              \<longrightarrow> index_in_file this (snd (Table_insert e now this row w))"
  proof
    assume a: "snd (insert_effects e now this row w) = Inr (fst (next_entry this w))
              \<and> Suc (length row) = length (getCols (schema ?t))
              \<and> list_all wf_col (getCols (schema ?t))"
    let ?w' = "snd (Table_insert e now this row w)"
    have len: "length (record_bytes e now this row w) = 267 + schema_getSize (schema ?t)"
      using length_record_bytes [of e now this row w] a by blast
    have t': "tables ?w' this = ?t\<lparr>header := header ?t @ [next_entry this w]\<rparr>"
      by (simp add: Table_insert_tables)
    have d': "content (files ?w') (path ?t)
                = content (files w) (path ?t) @ record_bytes e now this row w"
      by (simp add: Table_insert_files [OF assms(1)])
    have old: "list_all (record_in_file ?t (content (files ?w') (path ?t))) (header ?t)"
      using assms(2) by (auto simp: index_in_file_def d' intro: records_in_file_mono)
    have new: "record_in_file ?t (content (files ?w') (path ?t)) (next_entry this w)"
      using assms(4) by (simp add: record_in_file_def pos d' len)
    show "index_in_file this ?w'"
      using old new by (simp add: index_in_file_def t')
  qed
  show ?thesis
    using c1 c2 c3 c4 c5 c6 c7 c8 unfolding w5_def by blast
qed

theorem insert_appends_to_the_index_first_witness:
  "path (tables world0 0) \<noteq> header_file_path (tables world0 0)
   \<and> index_in_file 0 world0
   \<and> header (tables (run (Create (path (tables world0 0)) # index_append 0 world0) world0) 0)
       = header (tables world0 0) @ [next_entry 0 world0]
   \<and> \<not> index_in_file 0 (run (Create (path (tables world0 0)) # index_append 0 world0) world0)
   \<and> index_in_file 0 (snd (Table_insert env0 5 0 [''9'', ''Jhoe''] world0))"
proof -
  have h1: "path (tables world0 0) \<noteq> header_file_path (tables world0 0)"
    by code_simp
  have h2: "index_in_file 0 world0"
    by code_simp
  have h3: "length (content (files world0) (path (tables world0 0))) < 2 ^ 63"
    by (simp add: world0_def content_def)
  have h4: "HEADER_SIZE (tables world0 0) = 255 + 4 + 8"
    by (simp add: world0_def new_Table_def)
  have p: "snd (insert_effects env0 5 0 [''9'', ''Jhoe''] world0) = Inr (fst (next_entry 0 world0))
           \<and> Suc (length [''9'', ''Jhoe'']) = length (getCols (schema (tables world0 0)))
           \<and> list_all wf_col (getCols (schema (tables world0 0)))"
    by code_simp
  show ?thesis
    using insert_appends_to_the_index_first [OF h1 h2 h3 h4, of env0 5 "[''9'', ''Jhoe'']" 0] p h1 h2
    by blast
qed

text \<open>
  Against C1 as stated: Person holds one row, of 299 bytes, and a second is inserted.
  After the first five steps of this insert the pair \<open>(1, 299)\<close> is in the index file and
  in the in-memory index, while the data file still ends at byte 299: the entry points
  past the end of the data file, before any byte of its record is written.
\<close>

theorem index_entry_before_record_counterexample:
  "header (tables (run (take 5 (fst (insert_effects env0 6 0 [''10'', ''Marta'']
        (snd (Table_insert env0 5 0 [''9'', ''Jhoe''] world0)))))
        (snd (Table_insert env0 5 0 [''9'', ''Jhoe''] world0))) 0) = [(0, 0), (1, 299)]
   \<and> length (content (files (run (take 5 (fst (insert_effects env0 6 0 [''10'', ''Marta'']
        (snd (Table_insert env0 5 0 [''9'', ''Jhoe''] world0)))))
        (snd (Table_insert env0 5 0 [''9'', ''Jhoe''] world0)))) ''Person.dat'') = 299
   \<and> length (content (files (run (take 5 (fst (insert_effects env0 6 0 [''10'', ''Marta'']
        (snd (Table_insert env0 5 0 [''9'', ''Jhoe''] world0)))))
        (snd (Table_insert env0 5 0 [''9'', ''Jhoe''] world0)))) ''Person_h.dat'') = 32
   \<and> \<not> index_in_file 0 (run (take 5 (fst (insert_effects env0 6 0 [''10'', ''Marta'']
        (snd (Table_insert env0 5 0 [''9'', ''Jhoe''] world0)))))
        (snd (Table_insert env0 5 0 [''9'', ''Jhoe''] world0)))"
  by code_simp

section \<open>Decimal text and back\<close>

lemma of_char_digit_char: "0 \<le> d \<Longrightarrow> d < 10 \<Longrightarrow> (of_char (digit_char d) :: int) = 48 + d"
  by (simp add: digit_char_def of_char_of)

lemma isdigit_digit_char: "0 \<le> d \<Longrightarrow> d < 10 \<Longrightarrow> isdigit (digit_char d)"
  by (simp add: isdigit_def of_char_digit_char)

lemma digits_value_snoc:
  "digits_value (ds @ [c]) = 10 * digits_value ds + (of_char c - 48)"
  by (simp add: digits_value_def)

lemma show_digits_nonempty: "show_digits n \<noteq> []"
  by (subst show_digits.simps) simp

lemma show_digits_isdigit: "0 \<le> n \<Longrightarrow> list_all isdigit (show_digits n)"
proof (induction n rule: show_digits.induct)
  case (1 n)
  show ?case
  proof (cases "n < 10")
    case True
    then show ?thesis
      using "1.prems" by (subst show_digits.simps) (simp add: isdigit_digit_char)
  next
    case False
    then have "list_all isdigit (show_digits (n div 10))"
      using "1.IH" "1.prems" by simp
    moreover have "isdigit (digit_char (n mod 10))"
      by (simp add: isdigit_digit_char)
    ultimately show ?thesis
      using False by (subst show_digits.simps) simp
  qed
qed

lemma digits_value_show_digits: "0 \<le> n \<Longrightarrow> digits_value (show_digits n) = n"
proof (induction n rule: show_digits.induct)
  case (1 n)
  show ?case
  proof (cases "n < 10")
    case True
    then show ?thesis
      using "1.prems"
      by (subst show_digits.simps) (simp add: digits_value_def of_char_digit_char)
  next
    case False
    then have "digits_value (show_digits (n div 10)) = n div 10"
      using "1.IH" "1.prems" by simp
    then show ?thesis
      using False
      by (subst show_digits.simps) (simp add: digits_value_snoc of_char_digit_char)
  qed
qed

lemma isdigit_not_space: "isdigit c \<Longrightarrow> \<not> isspace c"
  by (auto simp: isdigit_def isspace_def)

lemma isdigit_not_sign: "isdigit c \<Longrightarrow> c \<noteq> CHR ''-'' \<and> c \<noteq> CHR ''+''"
  by (auto simp: isdigit_def)

lemma takeWhile_all: "list_all P xs \<Longrightarrow> takeWhile P xs = xs"
  by (induction xs) simp_all

lemma strtoll_digits:
  assumes "ds \<noteq> []" and "list_all isdigit ds"
  shows "strtoll ds = Some (digits_value ds)"
    and "strtoll (CHR ''-'' # ds) = Some (- digits_value ds)"
proof -
  obtain c r where ds: "ds = c # r" using assms(1) by (cases ds) simp_all
  have c: "isdigit c" using assms(2) by (simp add: ds)
  have tw: "takeWhile isdigit ds = ds" using assms(2) by (rule takeWhile_all)
  have dw: "dropWhile isspace ds = ds"
    using isdigit_not_space [OF c] by (simp add: ds)
  have neg: "(case ds of [] \<Rightarrow> False | c # r \<Rightarrow> c = CHR ''-'') = False"
    using isdigit_not_sign [OF c] by (simp add: ds)
  have s2: "(case ds of [] \<Rightarrow> [] | c # r \<Rightarrow> if c = CHR ''-'' \<or> c = CHR ''+'' then r else ds) = ds"
    using isdigit_not_sign [OF c] by (simp add: ds)
  show "strtoll ds = Some (digits_value ds)"
    unfolding strtoll_def Let_def dw neg s2 tw using assms(1) by simp
  have "\<not> isspace (CHR ''-'')" by (simp add: isspace_def)
  then have dw': "dropWhile isspace (CHR ''-'' # ds) = CHR ''-'' # ds" by simp
  show "strtoll (CHR ''-'' # ds) = Some (- digits_value ds)"
    unfolding strtoll_def Let_def dw' using assms(1) by (simp add: tw)
qed

lemma strtoll_show_int: "strtoll (show_int v) = Some v"
proof (cases "v < 0")
  case True
  then show ?thesis
    using strtoll_digits(2) [OF show_digits_nonempty show_digits_isdigit, of "- v"]
    by (simp add: show_int_def digits_value_show_digits)
next
  case False
  then show ?thesis
    using strtoll_digits(1) [OF show_digits_nonempty show_digits_isdigit, of v]
    by (simp add: show_int_def digits_value_show_digits)
qed

lemma stoll_show_int: "- (2 ^ 63) \<le> v \<Longrightarrow> v < 2 ^ 63 \<Longrightarrow> stoll (show_int v) = Inr v"
  by (simp add: stoll_def strtoll_show_int)

lemma to_signed_unsigned_32:
  assumes "- (2 ^ 31) \<le> v" and "v < 2 ^ 31"
  shows "to_signed 32 (to_unsigned 32 v) = v"
proof (cases "v < 0")
  case True
  have "(v + 4294967296) mod 4294967296 = v + 4294967296"
    using assms True by (intro mod_pos_pos_trivial) simp_all
  then have "v mod 4294967296 = v + 4294967296" by simp
  then show ?thesis using assms True by (simp add: to_signed_def to_unsigned_def)
next
  case False
  then show ?thesis using assms by (simp add: to_signed_def to_unsigned_def)
qed

lemma to_signed_unsigned_64:
  assumes "- (2 ^ 63) \<le> v" and "v < 2 ^ 63"
  shows "to_signed 64 (to_unsigned 64 v) = v"
proof (cases "v < 0")
  case True
  have "(v + 18446744073709551616) mod 18446744073709551616 = v + 18446744073709551616"
    using assms True by (intro mod_pos_pos_trivial) simp_all
  then have "v mod 18446744073709551616 = v + 18446744073709551616" by simp
  then show ?thesis using assms True by (simp add: to_signed_def to_unsigned_def)
next
  case False
  then show ?thesis using assms by (simp add: to_signed_def to_unsigned_def)
qed

lemma atoi_show_int: "- (2 ^ 31) \<le> v \<Longrightarrow> v < 2 ^ 31 \<Longrightarrow> atoi (show_int v) = v"
  by (simp add: atoi_def strtoll_show_int to_signed_unsigned_32)

section \<open>An insert that raises\<close>

lemma to_llong_range: "- (2 ^ 63) \<le> to_llong i \<and> to_llong i < 2 ^ 63"
proof -
  have "0 \<le> i mod 18446744073709551616" and "i mod 18446744073709551616 < 18446744073709551616"
    by simp_all
  then show ?thesis
    unfolding to_llong_def to_signed_def to_unsigned_def by (simp del: pos_mod_sign pos_mod_bound)
qed

lemma convertAndSave_unparseable_llong:
  "strtoll v = None \<Longrightarrow> col_type c = INT64 \<or> col_type c = FOREIGN_KEY \<Longrightarrow>
   convertAndSave e v c = Inl invalid_argument"
  by (auto simp: convertAndSave_def stoll_def)

lemma convertAndSave_unparseable_int:
  "strtoll v = None \<Longrightarrow> col_type c = INT32 \<Longrightarrow>
   convertAndSave e v c = Inr (write_obj (getSize c) (bytes_of_int 0) (stack e 0))"
  by (simp add: convertAndSave_def atoi_def)

lemma convertAndSave_show_int:
  "- (2 ^ 63) \<le> v \<Longrightarrow> v < 2 ^ 63 \<Longrightarrow> \<exists>bs. convertAndSave e (show_int v) c = Inr bs"
  by (cases "col_type c") (simp_all add: convertAndSave_def stoll_show_int)

text \<open>
  The value \<open>v\<close>, at position \<open>k\<close> of the row with the identifier in front, is written
  without an exception; and the bytes that are written for it then, its field.
\<close>

definition converts :: "Env \<Rightarrow> SchemaCol list \<Rightarrow> nat \<Rightarrow> string \<Rightarrow> bool" where
  "converts e cols k v =
     (case at cols (int k) of
        Inl x \<Rightarrow> False
      | Inr c \<Rightarrow> (case convertAndSave (callee e k) v c of Inl x \<Rightarrow> False | Inr bs \<Rightarrow> True))"

definition field_bytes :: "Env \<Rightarrow> SchemaCol list \<Rightarrow> nat \<Rightarrow> string \<Rightarrow> byte list" where
  "field_bytes e cols k v =
     (case at cols (int k) of
        Inl x \<Rightarrow> []
      | Inr c \<Rightarrow> (case convertAndSave (callee e k) v c of Inl x \<Rightarrow> [] | Inr bs \<Rightarrow> bs))"

text \<open>
  The loop over a row whose first \<open>i\<close> values are written without an exception: their
  fields are written, and the loop goes on with the values after them.
\<close>

lemma insert_cols_prefix:
  "i \<le> length row \<Longrightarrow> list_all (\<lambda>m. converts e cols (j + m) (row ! m)) [0..<i] \<Longrightarrow>
   insert_cols e p cols j row =
     (map (\<lambda>m. Write p (field_bytes e cols (j + m) (row ! m))) [0..<i]
      @ fst (insert_cols e p cols (j + i) (drop i row)),
      snd (insert_cols e p cols (j + i) (drop i row)))"
proof (induction i)
  case 0
  show ?case by simp
next
  case (Suc i)
  have i: "i < length row" using Suc.prems(1) by simp
  have all: "list_all (\<lambda>m. converts e cols (j + m) (row ! m)) [0..<i]"
    and last: "converts e cols (j + i) (row ! i)"
    using Suc.prems(2) by simp_all
  from last obtain c bs where c: "at cols (int (j + i)) = Inr c"
    and bs: "convertAndSave (callee e (j + i)) (row ! i) c = Inr bs"
    by (auto simp: converts_def split: sum.splits)
  have f: "field_bytes e cols (j + i) (row ! i) = bs"
    using c bs by (simp add: field_bytes_def)
  have d: "drop i row = row ! i # drop (Suc i) row"
    using i by (simp add: Cons_nth_drop_Suc)
  have step: "insert_cols e p cols (j + i) (drop i row) =
          (Write p bs # fst (insert_cols e p cols (j + Suc i) (drop (Suc i) row)),
           snd (insert_cols e p cols (j + Suc i) (drop (Suc i) row)))"
    unfolding d using c bs by (simp add: insert_cols.simps split_beta)
  have "insert_cols e p cols j row =
     (map (\<lambda>m. Write p (field_bytes e cols (j + m) (row ! m))) [0..<i]
      @ fst (insert_cols e p cols (j + i) (drop i row)),
      snd (insert_cols e p cols (j + i) (drop i row)))"
    using Suc.IH [OF _ all] i by simp
  then show ?case
    by (simp add: step f)
qed

lemma insert_cols_raises_at:
  "at cols (int k) = Inr c \<Longrightarrow> convertAndSave (callee e k) v c = Inl x \<Longrightarrow>
   insert_cols e p cols k (v # row) = ([], Some x)"
  by (simp add: insert_cols.simps)

lemma written_fields:
  "concat (map written (map (\<lambda>m. Write p (f m)) ms)) = concat (map f ms)"
  by (induction ms) simp_all

text \<open>
  C7, as the code has it. \<open>insert\<close> converts each column only when it writes it, after the
  index entry and the record header. When the value at position \<open>i\<close> of the row cannot
  be parsed as an integer, the values before it being written without an exception: if
  its column is \<open>INT64\<close> or \<open>FOREIGN_KEY\<close>, \<open>insert\<close> raises \<open>invalid_argument\<close> (from
  \<open>std::stoll\<close>), and by then the pair of identifier and offset is in the in-memory index
  and in the index file, and the data file has got the record header and the fields of
  the identifier and of the values before, and nothing behind them; if its column is
  \<open>INT32\<close>, the value raises nothing: \<open>atoi\<close> gives 0, the bytes of 0 are written as its
  field (from the address of the \<open>int\<close>, the four bytes of 0 when the column has the size
  of an \<open>int\<close>), and \<open>insert\<close> goes on with the values behind it, returning the identifier
  unless one of them raises.
\<close>

theorem unparseable_value_is_met_after_the_writes:
  assumes "path (tables w this) \<noteq> header_file_path (tables w this)"
    and "getCols (schema (tables w this)) \<noteq> []"
    and "i < length row"
    and "at (getCols (schema (tables w this))) (int (Suc i)) = Inr c"
    and "strtoll (row ! i) = None"
    and "list_all (\<lambda>m. converts e (getCols (schema (tables w this))) (Suc m) (row ! m)) [0..<i]"
  shows "(col_type c = INT64 \<or> col_type c = FOREIGN_KEY \<longrightarrow>
            fst (Table_insert e now this row w) = Inl invalid_argument
            \<and> header (tables (snd (Table_insert e now this row w)) this)
                = header (tables w this) @ [next_entry this w]
            \<and> files (snd (Table_insert e now this row w)) (header_file_path (tables w this))
                = Some (content (files w) (header_file_path (tables w this))
                        @ bytes_of_llong (fst (next_entry this w))
                        @ bytes_of_llong (snd (next_entry this w)))
            \<and> files (snd (Table_insert e now this row w)) (path (tables w this))
                = Some (content (files w) (path (tables w this))
                        @ registry_header_bytes (tables w this) now
                        @ concat (map (\<lambda>m. field_bytes e (getCols (schema (tables w this))) m
                                          ((show_int (fst (next_entry this w)) # row) ! m))
                                    [0..<Suc i])))
         \<and> (col_type c = INT32 \<longrightarrow>
              field_bytes e (getCols (schema (tables w this))) (Suc i) (row ! i)
                = write_obj (getSize c) (bytes_of_int 0) (callee_stack e (Suc i) 0)
              \<and> (getSize c = 4 \<longrightarrow>
                   field_bytes e (getCols (schema (tables w this))) (Suc i) (row ! i)
                     = bytes_of_int 0)
              \<and> fst (Table_insert e now this row w) =
                  (case snd (insert_cols e (path (tables w this))
                               (getCols (schema (tables w this))) (Suc (Suc i))
                               (drop (Suc i) row)) of
                     Some x \<Rightarrow> Inl x
                   | None \<Rightarrow> Inr (fst (next_entry this w)))
              \<and> files (snd (Table_insert e now this row w)) (path (tables w this))
                  = Some (content (files w) (path (tables w this))
                          @ registry_header_bytes (tables w this) now
                          @ concat (map (\<lambda>m. field_bytes e (getCols (schema (tables w this))) m
                                            ((show_int (fst (next_entry this w)) # row) ! m))
                                      [0..<Suc (Suc i)])
                          @ concat (map written
                              (fst (insert_cols e (path (tables w this))
                                      (getCols (schema (tables w this))) (Suc (Suc i))
                                      (drop (Suc i) row))))))"
proof -
  let ?t = "tables w this"
  let ?cols = "getCols (schema ?t)"
  let ?p = "path ?t"
  let ?row1 = "show_int (fst (next_entry this w)) # row"
  let ?fld = "\<lambda>m. field_bytes e ?cols m (?row1 ! m)"
  have "at ?cols (int 0) = Inr (?cols ! 0)"
    using assms(2) by (simp add: at_def)
  moreover have "\<exists>bs. convertAndSave (callee e 0) (show_int (fst (next_entry this w))) (?cols ! 0)
                       = Inr bs"
    using to_llong_range [of "int (length (header ?t))"]
    by (simp add: next_entry_def convertAndSave_show_int)
  ultimately have c0: "converts e ?cols 0 (show_int (fst (next_entry this w)))"
    by (auto simp: converts_def)
  have "\<forall>m\<in>{0..<Suc i}. converts e ?cols (0 + m) (?row1 ! m)"
  proof (intro ballI)
    fix m assume "m \<in> {0..<Suc i}"
    then have m: "m < Suc i" by simp
    show "converts e ?cols (0 + m) (?row1 ! m)"
    proof (cases m)
      case 0
      then show ?thesis using c0 by simp
    next
      case (Suc m')
      then have "m' < i" using m by simp
      then have "converts e ?cols (Suc m') (row ! m')"
        using assms(6) by (simp add: list_all_iff)
      then show ?thesis by (simp add: Suc)
    qed
  qed
  then have pre: "list_all (\<lambda>m. converts e ?cols (0 + m) (?row1 ! m)) [0..<Suc i]"
    by (simp only: list_all_iff set_upt)
  have d: "drop (Suc i) ?row1 = row ! i # drop (Suc i) row"
    using assms(3) by (simp add: Cons_nth_drop_Suc)
  have split1: "insert_cols e ?p ?cols 0 ?row1 =
     (map (\<lambda>m. Write ?p (?fld m)) [0..<Suc i]
      @ fst (insert_cols e ?p ?cols (Suc i) (row ! i # drop (Suc i) row)),
      snd (insert_cols e ?p ?cols (Suc i) (row ! i # drop (Suc i) row)))"
    using insert_cols_prefix [OF _ pre, of ?p] assms(3) by (simp only: d) simp
  have idx: "files (snd (Table_insert e now this row w)) (header_file_path ?t)
          = Some (content (files w) (header_file_path ?t)
                  @ bytes_of_llong (fst (next_entry this w))
                  @ bytes_of_llong (snd (next_entry this w)))"
    using assms(1) by (simp add: Table_insert_files)
  have dat: "files (snd (Table_insert e now this row w)) ?p
          = Some (content (files w) ?p @ record_bytes e now this row w)"
    using assms(1) by (simp add: Table_insert_files)
  show ?thesis
  proof (intro conjI impI)
    assume ty: "col_type c = INT64 \<or> col_type c = FOREIGN_KEY"
    have "convertAndSave (callee e (Suc i)) (row ! i) c = Inl invalid_argument"
      using convertAndSave_unparseable_llong [OF assms(5) ty] .
    from insert_cols_raises_at [OF assms(4) this, of ?p "drop (Suc i) row"]
    have all: "insert_cols e ?p ?cols 0 ?row1
                 = (map (\<lambda>m. Write ?p (?fld m)) [0..<Suc i], Some invalid_argument)"
      by (simp only: split1) simp
    show "fst (Table_insert e now this row w) = Inl invalid_argument"
      by (simp add: Table_insert_result all)
    show "header (tables (snd (Table_insert e now this row w)) this)
            = header ?t @ [next_entry this w]"
      by (simp add: Table_insert_tables)
    show "files (snd (Table_insert e now this row w)) (header_file_path ?t)
            = Some (content (files w) (header_file_path ?t)
                    @ bytes_of_llong (fst (next_entry this w))
                    @ bytes_of_llong (snd (next_entry this w)))"
      by (rule idx)
    have "record_bytes e now this row w
            = registry_header_bytes ?t now @ concat (map ?fld [0..<Suc i])"
      unfolding record_bytes_def all by (simp only: fst_conv written_fields)
    then show "files (snd (Table_insert e now this row w)) ?p
            = Some (content (files w) ?p @ registry_header_bytes ?t now
                    @ concat (map ?fld [0..<Suc i]))"
      by (simp only: dat)
  next
    assume ty: "col_type c = INT32"
    have cv: "convertAndSave (callee e (Suc i)) (row ! i) c
                = Inr (write_obj (getSize c) (bytes_of_int 0) (callee_stack e (Suc i) 0))"
      using convertAndSave_unparseable_int [OF assms(5) ty, of "callee e (Suc i)"]
      by (simp add: callee_def)
    show f: "field_bytes e ?cols (Suc i) (row ! i)
            = write_obj (getSize c) (bytes_of_int 0) (callee_stack e (Suc i) 0)"
      using assms(4) cv by (simp add: field_bytes_def)
    show "field_bytes e ?cols (Suc i) (row ! i) = bytes_of_int 0" if "getSize c = 4"
      using that by (simp add: f write_obj_whole)
    have "converts e ?cols (0 + Suc i) (?row1 ! Suc i)"
      using assms(4) cv by (simp add: converts_def)
    with pre have pre2: "list_all (\<lambda>m. converts e ?cols (0 + m) (?row1 ! m)) [0..<Suc (Suc i)]"
      by simp
    have split2: "insert_cols e ?p ?cols 0 ?row1 =
       (map (\<lambda>m. Write ?p (?fld m)) [0..<Suc (Suc i)]
        @ fst (insert_cols e ?p ?cols (Suc (Suc i)) (drop (Suc i) row)),
        snd (insert_cols e ?p ?cols (Suc (Suc i)) (drop (Suc i) row)))"
      using insert_cols_prefix [OF _ pre2, of ?p] assms(3) by simp
    show "fst (Table_insert e now this row w) =
            (case snd (insert_cols e ?p ?cols (Suc (Suc i)) (drop (Suc i) row)) of
               Some x \<Rightarrow> Inl x
             | None \<Rightarrow> Inr (fst (next_entry this w)))"
      by (simp only: Table_insert_result split2 snd_conv)
    have "record_bytes e now this row w
            = registry_header_bytes ?t now @ concat (map ?fld [0..<Suc (Suc i)])
              @ concat (map written (fst (insert_cols e ?p ?cols (Suc (Suc i)) (drop (Suc i) row))))"
      unfolding record_bytes_def split2
      by (simp only: fst_conv map_append concat_append written_fields)
    then show "files (snd (Table_insert e now this row w)) ?p
            = Some (content (files w) ?p @ registry_header_bytes ?t now
                    @ concat (map ?fld [0..<Suc (Suc i)])
                    @ concat (map written
                        (fst (insert_cols e ?p ?cols (Suc (Suc i)) (drop (Suc i) row)))))"
      by (simp only: dat)
  qed
qed

text \<open>
  Into the empty Worked: \<open>abc\<close> for the foreign key raises, with the entry \<open>(0, 0)\<close> in the
  index and the record header, the identifier and the company in the data file, 279
  bytes; \<open>abc\<close> for the company, an \<open>INT32\<close>, is stored as 0 and the insert returns the
  identifier 0, the data file holding the whole record, 287 bytes.
\<close>

theorem unparseable_value_is_met_after_the_writes_witness:
  "strtoll ([''77'', ''abc''] ! 1) = None
   \<and> fst (Table_insert env0 5 1 [''77'', ''abc''] world0) = Inl invalid_argument
   \<and> header (tables (snd (Table_insert env0 5 1 [''77'', ''abc''] world0)) 1) = [(0, 0)]
   \<and> files (snd (Table_insert env0 5 1 [''77'', ''abc''] world0)) ''Worked.dat''
       = Some (registry_header_bytes (tables world0 1) 5 @ bytes_of_llong 0 @ bytes_of_int 77)
   \<and> strtoll ([''abc'', ''9''] ! 0) = None
   \<and> fst (Table_insert env0 5 1 [''abc'', ''9''] world0) = Inr 0
   \<and> files (snd (Table_insert env0 5 1 [''abc'', ''9''] world0)) ''Worked.dat''
       = Some (registry_header_bytes (tables world0 1) 5 @ bytes_of_llong 0 @ bytes_of_int 0
               @ bytes_of_llong 9)"
proof -
  have h1: "path (tables world0 1) \<noteq> header_file_path (tables world0 1)"
    by code_simp
  have h2: "getCols (schema (tables world0 1)) \<noteq> []"
    by code_simp
  have a3: "1 < length [''77'', ''abc'']"
    by simp
  have a4: "at (getCols (schema (tables world0 1))) (int (Suc 1))
              = Inr \<lparr>col_name = ''id_person'', col_type = FOREIGN_KEY, getSize = 8\<rparr>"
    by code_simp
  have a5: "strtoll ([''77'', ''abc''] ! 1) = None"
    by code_simp
  have a6: "list_all (\<lambda>m. converts env0 (getCols (schema (tables world0 1))) (Suc m)
              ([''77'', ''abc''] ! m)) [0..<1]"
    by code_simp
  have b3: "0 < length [''abc'', ''9'']"
    by simp
  have b4: "at (getCols (schema (tables world0 1))) (int (Suc 0))
              = Inr \<lparr>col_name = ''id_company'', col_type = INT32, getSize = 4\<rparr>"
    by code_simp
  have b5: "strtoll ([''abc'', ''9''] ! 0) = None"
    by code_simp
  have b6: "list_all (\<lambda>m. converts env0 (getCols (schema (tables world0 1))) (Suc m)
              ([''abc'', ''9''] ! m)) [0..<0]"
    by simp
  have v: "header (tables world0 1) = [] \<and> next_entry 1 world0 = (0, 0)
           \<and> path (tables world0 1) = ''Worked.dat''
           \<and> content (files world0) ''Worked.dat'' = []"
    by code_simp
  have fa: "concat (map (\<lambda>m. field_bytes env0 (getCols (schema (tables world0 1))) m
                           ((show_int (fst (next_entry 1 world0)) # [''77'', ''abc'']) ! m))
                      [0..<Suc 1])
            = bytes_of_llong 0 @ bytes_of_int 77"
    by code_simp
  have fb: "concat (map (\<lambda>m. field_bytes env0 (getCols (schema (tables world0 1))) m
                           ((show_int (fst (next_entry 1 world0)) # [''abc'', ''9'']) ! m))
                      [0..<Suc (Suc 0)])
            = bytes_of_llong 0 @ bytes_of_int 0"
    by code_simp
  have rb: "insert_cols env0 (path (tables world0 1)) (getCols (schema (tables world0 1)))
              (Suc (Suc 0)) (drop (Suc 0) [''abc'', ''9''])
            = ([Write ''Worked.dat'' (bytes_of_llong 9)], None)"
    by code_simp
  note ta = unparseable_value_is_met_after_the_writes [OF h1 h2 a3 a4 a5 a6, of 5,
      THEN conjunct1, rule_format]
  note tb = unparseable_value_is_met_after_the_writes [OF h1 h2 b3 b4 b5 b6, of 5,
      THEN conjunct2, rule_format]
  have a: "fst (Table_insert env0 5 1 [''77'', ''abc''] world0) = Inl invalid_argument
     \<and> header (tables (snd (Table_insert env0 5 1 [''77'', ''abc''] world0)) 1) = [(0, 0)]
     \<and> files (snd (Table_insert env0 5 1 [''77'', ''abc''] world0)) ''Worked.dat''
         = Some (registry_header_bytes (tables world0 1) 5 @ bytes_of_llong 0 @ bytes_of_int 77)"
    using ta v fa by simp
  have b: "fst (Table_insert env0 5 1 [''abc'', ''9''] world0) = Inr 0
     \<and> files (snd (Table_insert env0 5 1 [''abc'', ''9''] world0)) ''Worked.dat''
         = Some (registry_header_bytes (tables world0 1) 5 @ bytes_of_llong 0 @ bytes_of_int 0
                 @ bytes_of_llong 9)"
    using tb v fb rb by simp
  show ?thesis using a b a5 b5 by simp
qed

text \<open>
  Against C7 as stated. Worked is empty and \<open>''abc''\<close> is given for its \<open>FOREIGN_KEY\<close> column:
  \<open>insert\<close> raises, yet the in-memory index holds the entry \<open>(0, 0)\<close>, the index file its
  16 bytes, and the data file the record header, the identifier and the first column,
  279 bytes. And \<open>''abc''\<close> given for the \<open>INT32\<close> column raises nothing: the insert returns
  the identifier 0.
\<close>

theorem unparseable_value_counterexample:
  "fst (Table_insert env0 5 1 [''77'', ''abc''] world0) = Inl invalid_argument
   \<and> header (tables world0 1) = []
   \<and> header (tables (snd (Table_insert env0 5 1 [''77'', ''abc''] world0)) 1) = [(0, 0)]
   \<and> files world0 ''Worked_h.dat'' = None
   \<and> length (content (files (snd (Table_insert env0 5 1 [''77'', ''abc''] world0)))
        ''Worked_h.dat'') = 16
   \<and> files world0 ''Worked.dat'' = None
   \<and> length (content (files (snd (Table_insert env0 5 1 [''77'', ''abc''] world0)))
        ''Worked.dat'') = 279
   \<and> fst (Table_insert env0 5 1 [''abc'', ''9''] world0) = Inr 0"
  by code_simp

section \<open>\<open>getRow\<close> on a record and on a file that is too short\<close>

lemma getRow_cols_failed:
  "\<not> good f \<Longrightarrow>
   fst (getRow_cols e cols i f) = map (\<lambda>(k, c). convert_col e c (stack e k)) (enumerate i cols)"
proof (induction cols arbitrary: i)
  case Nil
  show ?case by simp
next
  case (Cons c cols)
  have r: "ifstream_read (getSize c) f = ([], f)"
    using Cons.prems by (simp add: ifstream_read_def)
  show ?case
    using Cons.IH [OF Cons.prems, of "Suc i"] by (simp add: r split_beta)
qed

lemma getRow_cols_fields:
  "map length flds = map getSize cols \<Longrightarrow>
   fst (getRow_cols e cols i \<lparr>good = True, rest = concat flds @ post\<rparr>) =
     map (\<lambda>(k, c, f). convert_col e c (f @ drop (length f) (stack e k)))
       (enumerate i (zip cols flds))"
proof (induction cols arbitrary: i flds)
  case Nil
  show ?case by simp
next
  case (Cons c cols)
  then obtain f fs where fl: "flds = f # fs" and f: "length f = getSize c"
    and fs: "map length fs = map getSize cols"
    by (cases flds) auto
  have r: "ifstream_read (getSize c) \<lparr>good = True, rest = f @ concat fs @ post\<rparr>
             = (f, \<lparr>good = True, rest = concat fs @ post\<rparr>)"
    by (simp add: ifstream_read_def f [symmetric])
  show ?case
    using Cons.IH [OF fs, of "Suc i"] by (simp add: r fl split_beta)
qed

text \<open>After a read that failed, or on a stream that had failed, the stream is not good.\<close>

lemma ifstream_read_short:
  "\<not> good f \<or> length (rest f) < n \<Longrightarrow> \<not> good (snd (ifstream_read n f))"
  by (auto simp: ifstream_read_def)

lemma ifstream_read_rest:
  "good (snd (ifstream_read n f)) \<Longrightarrow>
   good f \<and> n \<le> length (rest f) \<and> rest (snd (ifstream_read n f)) = drop n (rest f)"
  by (auto simp: ifstream_read_def split: if_splits)

text \<open>
  The stream of \<open>getRow\<close> after \<open>seekg\<close> and the three reads of the record header.
\<close>

definition after_header :: "int \<Rightarrow> string \<Rightarrow> fs \<Rightarrow> ifstream" where
  "after_header pos p fls =
     snd (ifstream_read 8 (snd (ifstream_read 4 (snd (ifstream_read 255
       (seekg pos (ifstream_open p fls)))))))"

lemma getRow_after_header:
  "fst (getRow e this pos w) =
     fst (getRow_cols e (getCols (schema (tables w this))) 0
            (after_header pos (path (tables w this)) (files w)))"
  by (simp add: getRow_def Let_def after_header_def)

lemma after_header_short:
  assumes "pos < 0 \<or> int (length (content fls p)) < pos + 267"
  shows "\<not> good (after_header pos p fls)"
proof
  let ?s = "seekg pos (ifstream_open p fls)"
  let ?f1 = "snd (ifstream_read 255 ?s)"
  let ?f2 = "snd (ifstream_read 4 ?f1)"
  assume g: "good (after_header pos p fls)"
  then have "good (snd (ifstream_read 8 ?f2))" by (simp add: after_header_def)
  from ifstream_read_rest [OF this]
  have g2: "good ?f2" and l2: "8 \<le> length (rest ?f2)" by simp_all
  from ifstream_read_rest [OF g2]
  have g1: "good ?f1" and l1: "4 \<le> length (rest ?f1)" and r2: "rest ?f2 = drop 4 (rest ?f1)"
    by simp_all
  from ifstream_read_rest [OF g1]
  have g0: "good ?s" and l0: "255 \<le> length (rest ?s)" and r1: "rest ?f1 = drop 255 (rest ?s)"
    by simp_all
  have len: "267 \<le> length (rest ?s)"
    using l2 r2 r1 by simp
  from g0 have p0: "0 \<le> pos" and o: "good (ifstream_open p fls)"
    by (auto simp: seekg_def split: if_splits)
  from o obtain data where d: "fls p = Some data"
    by (auto simp: ifstream_open_def split: option.splits)
  have "rest ?s = drop (nat pos) data"
    using p0 by (simp add: seekg_def ifstream_open_def d)
  with len have "267 \<le> length data - nat pos" by simp
  then have "pos + 267 \<le> int (length data)" using p0 by linarith
  with assms p0 show False by (simp add: content_def d)
qed

lemma after_header_record:
  assumes "fls p = Some (pre @ hdr @ payload)" and "0 \<le> pos" and "length pre = nat pos"
    and "length hdr = 267"
  shows "after_header pos p fls = \<lparr>good = True, rest = payload\<rparr>"
  using assms
  by (simp add: after_header_def seekg_def ifstream_open_def ifstream_read_def)

text \<open>
  C8, as the code has it. \<open>getRow\<close> seeks to the offset, reads the record header in its
  three flds of 255, 4 and 8 bytes, then reads the field of each schema column in schema
  order and converts it: when the data file holds, from the offset on, a record header
  and one field of the size of each column, the row is the conversion of these fields.
  It never fails: its row has one text per schema column whatever the file and the
  offset; and when the offset is negative or the data file is shorter than the offset
  plus the record header, no field is read and each text is the conversion of what the
  uninitialised local object of its column holds.
\<close>

theorem getRow_converts_the_fields_and_never_fails:
  "length (fst (getRow e this pos w)) = length (getCols (schema (tables w this)))
   \<and> (files w (path (tables w this)) = Some (pre @ hdr @ concat flds @ post)
        \<and> 0 \<le> pos \<and> length pre = nat pos \<and> length hdr = 267
        \<and> map length flds = map getSize (getCols (schema (tables w this)))
      \<longrightarrow> fst (getRow e this pos w) =
            map (\<lambda>(k, c, f). convert_col e c (f @ drop (length f) (stack e k)))
              (enumerate 0 (zip (getCols (schema (tables w this))) flds)))
   \<and> (pos < 0 \<or> int (length (content (files w) (path (tables w this)))) < pos + 267
      \<longrightarrow> fst (getRow e this pos w) =
            map (\<lambda>(k, c). convert_col e c (stack e k))
              (enumerate 0 (getCols (schema (tables w this)))))"
proof (intro conjI impI)
  show "length (fst (getRow e this pos w)) = length (getCols (schema (tables w this)))"
    by (rule length_getRow)
next
  assume a: "files w (path (tables w this)) = Some (pre @ hdr @ concat flds @ post)
        \<and> 0 \<le> pos \<and> length pre = nat pos \<and> length hdr = 267
        \<and> map length flds = map getSize (getCols (schema (tables w this)))"
  then have "after_header pos (path (tables w this)) (files w)
               = \<lparr>good = True, rest = concat flds @ post\<rparr>"
    using after_header_record [of "files w" "path (tables w this)" pre hdr "concat flds @ post" pos]
    by blast
  then show "fst (getRow e this pos w) =
            map (\<lambda>(k, c, f). convert_col e c (f @ drop (length f) (stack e k)))
              (enumerate 0 (zip (getCols (schema (tables w this))) flds))"
    using a getRow_cols_fields [of flds "getCols (schema (tables w this))" e 0 post]
    by (simp add: getRow_after_header)
next
  assume "pos < 0 \<or> int (length (content (files w) (path (tables w this)))) < pos + 267"
  from after_header_short [OF this]
  show "fst (getRow e this pos w) =
            map (\<lambda>(k, c). convert_col e c (stack e k))
              (enumerate 0 (getCols (schema (tables w this))))"
    using getRow_cols_failed [of _ e "getCols (schema (tables w this))" 0]
    by (simp add: getRow_after_header)
qed

text \<open>
  An environment whose uninitialised memory holds the byte \<open>#\<close>, 24 times from the
  address of each local object on, and at the \<open>k\<close>-th call made from it the byte of the
  code \<open>35 + k\<close>, 24 times.
\<close>

definition env1 :: Env where
  "env1 = env0\<lparr>stack := (\<lambda>i. replicate 24 (CHR ''#'')),
                callee_stack := (\<lambda>k i. replicate 24 (char_of (35 + int k)))\<rparr>"

text \<open>Person after the insert of its first row, at time 5.\<close>

definition world1 :: World where
  "world1 = snd (Table_insert env0 5 0 [''9'', ''Jhoe''] world0)"

theorem getRow_converts_the_fields_and_never_fails_witness:
  "fst (getRow env1 0 0 world1) = [''0'', ''9'', ''Jhoe'']
   \<and> fst (getRow env1 0 100 world1)
       = [''2531906049332683555'', ''589505315'', ''########################'']"
proof -
  define data where "data = content (files world1) ''Person.dat''"
  have h: "files world1 (path (tables world1 0))
             = Some ([] @ take 267 data
                     @ concat [take 8 (drop 267 data), take 4 (drop 275 data), drop 279 data] @ [])
           \<and> (0::int) \<le> 0 \<and> length ([] :: byte list) = nat 0 \<and> length (take 267 data) = 267
           \<and> map length [take 8 (drop 267 data), take 4 (drop 275 data), drop 279 data]
               = map getSize (getCols (schema (tables world1 0)))"
    unfolding data_def by code_simp
  have r: "map (\<lambda>(k, c, f). convert_col env1 c (f @ drop (length f) (stack env1 k)))
             (enumerate 0 (zip (getCols (schema (tables world1 0)))
                [take 8 (drop 267 data), take 4 (drop 275 data), drop 279 data]))
           = [''0'', ''9'', ''Jhoe'']"
    unfolding data_def by code_simp
  have s: "(100::int) < 0 \<or> int (length (content (files world1) (path (tables world1 0)))) < 100 + 267"
    by code_simp
  have g: "map (\<lambda>(k, c). convert_col env1 c (stack env1 k))
             (enumerate 0 (getCols (schema (tables world1 0))))
           = [''2531906049332683555'', ''589505315'', ''########################'']"
    by code_simp
  have a: "fst (getRow env1 0 0 world1) = [''0'', ''9'', ''Jhoe'']"
    using getRow_converts_the_fields_and_never_fails
      [where e = env1 and this = 0 and pos = 0 and w = world1 and pre = "[]"
         and hdr = "take 267 data"
         and flds = "[take 8 (drop 267 data), take 4 (drop 275 data), drop 279 data]"
         and post = "[]"] h r
    by simp
  have b: "fst (getRow env1 0 100 world1)
             = [''2531906049332683555'', ''589505315'', ''########################'']"
    using getRow_converts_the_fields_and_never_fails
      [where e = env1 and this = 0 and pos = 100 and w = world1] s g
    by simp
  show ?thesis using a b by simp
qed

text \<open>
  Against C8 as stated: the data file of Person holds one record, 299 bytes. At offset
  100 it is shorter than the record header and the payload require, and \<open>getRow\<close>
  returns a row, made of what the uninitialised locals hold; with no data file at all it
  returns a row as well.
\<close>

theorem getRow_on_short_file_counterexample:
  "length (content (files world1) ''Person.dat'') = 299
   \<and> fst (getRow env1 0 100 world1)
       = [''2531906049332683555'', ''589505315'', ''########################'']
   \<and> files world0 ''Person.dat'' = None
   \<and> fst (getRow env1 0 0 world0)
       = [''2531906049332683555'', ''589505315'', ''########################'']"
  by code_simp

section \<open>Lookup by identifier\<close>

text \<open>
  The binary search on a range that the comparison with the value splits at \<open>k\<close>: it
  returns \<open>k\<close>.
\<close>

lemma lower_bound_threshold:
  "(\<forall>i. first \<le> i \<and> i < first + count \<longrightarrow> (pair_less (xs ! i) val \<longleftrightarrow> i < k)) \<Longrightarrow>
   first \<le> k \<Longrightarrow> k \<le> first + count \<Longrightarrow> lower_bound xs first count val = k"
proof (induction xs first count val rule: lower_bound.induct)
  case (1 xs first count val)
  show ?case
  proof (cases "0 < count")
    case False
    then show ?thesis using "1.prems" by (subst lower_bound.simps) simp
  next
    case True
    let ?step = "count div 2"
    let ?it = "first + ?step"
    have lt: "?it < first + count" using True by simp
    show ?thesis
    proof (cases "pair_less (xs ! ?it) val")
      case less: True
      then have k: "?it < k" using "1.prems"(1) lt by simp
      have "lower_bound xs (Suc ?it) (count - (?step + 1)) val = k"
      proof (rule "1.IH"(1) [OF True refl refl less])
        show "\<forall>i. Suc ?it \<le> i \<and> i < Suc ?it + (count - (?step + 1))
                \<longrightarrow> (pair_less (xs ! i) val \<longleftrightarrow> i < k)"
          using "1.prems"(1) by auto
        show "Suc ?it \<le> k" using k by simp
        show "k \<le> Suc ?it + (count - (?step + 1))" using "1.prems"(3) lt by simp
      qed
      then show ?thesis
        using True less by (subst lower_bound.simps) (simp add: Let_def)
    next
      case nless: False
      then have k: "k \<le> ?it" using "1.prems"(1) lt by auto
      have "lower_bound xs first ?step val = k"
      proof (rule "1.IH"(2) [OF True refl refl nless])
        show "\<forall>i. first \<le> i \<and> i < first + ?step \<longrightarrow> (pair_less (xs ! i) val \<longleftrightarrow> i < k)"
          using "1.prems"(1) lt by auto
        show "first \<le> k" by (rule "1.prems"(2))
        show "k \<le> first + ?step" by (rule k)
      qed
      then show ?thesis
        using True nless by (subst lower_bound.simps) (simp add: Let_def)
    qed
  qed
qed

lemma gapless_nth: "gapless hdr \<Longrightarrow> i < length hdr \<Longrightarrow> fst (hdr ! i) = int i"
proof -
  assume g: "gapless hdr" and i: "i < length hdr"
  have "fst (hdr ! i) = map fst hdr ! i" using i by simp
  also have "\<dots> = map int [0..<length hdr] ! i" using g by (simp add: gapless_def)
  also have "\<dots> = int i" using i by simp
  finally show ?thesis .
qed

lemma lower_bound_gapless:
  assumes "gapless hdr" and "list_all (\<lambda>p. - (2 ^ 63) \<le> snd p) hdr"
  shows "lower_bound hdr 0 (length hdr) (row_id, - (2 ^ 63)) = min (length hdr) (nat row_id)"
proof (rule lower_bound_threshold)
  show "\<forall>i. 0 \<le> i \<and> i < 0 + length hdr
          \<longrightarrow> (pair_less (hdr ! i) (row_id, - (2 ^ 63)) \<longleftrightarrow> i < min (length hdr) (nat row_id))"
  proof (intro allI impI)
    fix i assume "0 \<le> i \<and> i < 0 + length hdr"
    then have i: "i < length hdr" by simp
    have "- (2 ^ 63) \<le> snd (hdr ! i)"
      using assms(2) i by (simp add: list_all_length)
    then show "pair_less (hdr ! i) (row_id, - (2 ^ 63)) \<longleftrightarrow> i < min (length hdr) (nat row_id)"
      using gapless_nth [OF assms(1) i] i by (auto simp: pair_less_def)
  qed
qed simp_all

text \<open>
  C2 on the code. On an index of fewer than \<open>2 ^ 31\<close> entries, the range of \<open>int idx\<close>,
  whose identifiers are \<open>0, 1, 2, \<dots>\<close> (and whose offsets are
  in the range of their type), \<open>getRowById\<close> returns the row read at the offset stored
  under the identifier for every identifier in \<open>[0, row_count)\<close>, and an empty row, its
  not-found outcome, for a negative identifier when the index is not empty. For every
  identifier from \<open>row_count\<close> on, and for every identifier when the index is empty, the
  binary search returns the end of the index and \<open>header->at\<close> raises \<open>out_of_range\<close>:
  there the claim is not met.
\<close>

theorem getRowById_on_gapless_index:
  assumes "gapless (header (tables w this))"
    and "list_all (\<lambda>p. - (2 ^ 63) \<le> snd p) (header (tables w this))"
    and "length (header (tables w this)) < 2 ^ 31"
  shows "fst (getRowById e this row_id w) =
           (if 0 \<le> row_id \<and> row_id < int (length (header (tables w this)))
            then Inr (fst (getRow e this (snd (header (tables w this) ! nat row_id)) w))
            else if row_id < 0 \<and> header (tables w this) \<noteq> [] then Inr []
            else Inl out_of_range)"
proof -
  let ?hdr = "header (tables w this)"
  have lb: "lower_bound ?hdr 0 (length ?hdr) (row_id, - (2 ^ 63)) = min (length ?hdr) (nat row_id)"
    using assms(1,2) by (rule lower_bound_gapless)
  have "int (min (length ?hdr) (nat row_id)) < 2 ^ 31"
    using assms(3) by simp
  then have "to_signed 32 (int (min (length ?hdr) (nat row_id)))
               = int (min (length ?hdr) (nat row_id))"
    by (intro to_signed_32_id) simp_all
  then have idx: "to_signed 32 (int (lower_bound ?hdr 0 (length ?hdr)
                     (row_id, - 9223372036854775808)))
                    = int (min (length ?hdr) (nat row_id))"
    using lb by simp
  show ?thesis
  proof (cases "0 \<le> row_id \<and> row_id < int (length ?hdr)")
    case True
    then have n: "nat row_id < length ?hdr" by (simp add: nat_less_iff)
    have "fst (?hdr ! nat row_id) = row_id"
      using gapless_nth [OF assms(1) n] True by simp
    then show ?thesis
      using True n by (simp add: getRowById_def Let_def idx at_def split_beta)
  next
    case False
    show ?thesis
    proof (cases "row_id < 0 \<and> ?hdr \<noteq> []")
      case True
      then have z: "0 < length ?hdr" by simp
      have "fst (?hdr ! 0) = 0"
        using gapless_nth [OF assms(1) z] by simp
      then show ?thesis
        using True z by (simp add: getRowById_def Let_def idx at_def)
    next
      case f2: False
      then have "min (length ?hdr) (nat row_id) = length ?hdr"
        using False by (cases "row_id < 0") auto
      then show ?thesis
        using False f2 by (simp add: getRowById_def Let_def idx at_def)
    qed
  qed
qed

text \<open>
  Person holds one row, under the identifier 0. The lookup of 0 returns it, the lookup
  of \<open>- 1\<close> an empty row, and the lookup of 1, which is \<open>row_count\<close>, raises.
\<close>

theorem getRowById_on_gapless_index_witness:
  "gapless (header (tables world1 0))
   \<and> fst (getRowById env1 0 0 world1) = Inr [''0'', ''9'', ''Jhoe'']
   \<and> fst (getRowById env1 0 (- 1) world1) = Inr []
   \<and> fst (getRowById env1 0 1 world1) = Inl out_of_range"
proof -
  have h1: "gapless (header (tables world1 0))"
    by code_simp
  have h2: "list_all (\<lambda>p. - (2 ^ 63) \<le> snd p) (header (tables world1 0))"
    by code_simp
  have n: "length (header (tables world1 0)) = 1"
    by code_simp
  have h3: "length (header (tables world1 0)) < 2 ^ 31"
    by (simp add: n)
  have r: "fst (getRow env1 0 (snd (header (tables world1 0) ! nat 0)) world1)
             = [''0'', ''9'', ''Jhoe'']"
    by code_simp
  have ne: "header (tables world1 0) \<noteq> []"
    using n by auto
  show ?thesis
    using getRowById_on_gapless_index [OF h1 h2 h3, of env1 0]
      getRowById_on_gapless_index [OF h1 h2 h3, of env1 "- 1"]
      getRowById_on_gapless_index [OF h1 h2 h3, of env1 1] h1 n r ne
    by simp
qed

section \<open>Encoding a value and decoding it again\<close>

lemma le_value_le_bytes: "le_value (le_bytes n v) = v mod 256 ^ n"
proof (induction n arbitrary: v)
  case 0
  show ?case by simp
next
  case (Suc n)
  have "le_value (le_bytes (Suc n) v) = v mod 256 + 256 * ((v div 256) mod 256 ^ n)"
    by (simp add: Suc)
  also have "\<dots> = v mod 256 ^ Suc n"
    using zmod_zmult2_eq [of "256 ^ n" v 256] by simp
  finally show ?case .
qed

lemma llong_of_bytes_of_llong:
  "- (2 ^ 63) \<le> v \<Longrightarrow> v < 2 ^ 63 \<Longrightarrow> llong_of_bytes (bytes_of_llong v @ behind) = v"
  using to_signed_unsigned_64 [of v]
  by (simp add: llong_of_bytes_def bytes_of_llong_def le_value_le_bytes to_unsigned_def to_signed_def)

lemma int_of_bytes_of_int:
  "- (2 ^ 31) \<le> v \<Longrightarrow> v < 2 ^ 31 \<Longrightarrow> int_of_bytes (bytes_of_int v @ behind) = v"
  using to_signed_unsigned_32 [of v]
  by (simp add: int_of_bytes_def bytes_of_int_def le_value_le_bytes to_unsigned_def to_signed_def)

lemma atoi_range: "- (2 ^ 31) \<le> atoi v \<and> atoi v < 2 ^ 31"
proof -
  have "- (2 ^ 31) \<le> to_signed 32 x \<and> to_signed 32 x < 2 ^ 31" for x
  proof -
    have "0 \<le> x mod 4294967296" and "x mod 4294967296 < 4294967296"
      by simp_all
    then show ?thesis
      unfolding to_signed_def by (simp del: pos_mod_sign pos_mod_bound)
  qed
  then show ?thesis
    by (simp add: atoi_def split: option.splits)
qed

text \<open>
  The integer columns: what \<open>getRow\<close> converts from the bytes \<open>convertAndSave\<close> wrote,
  whatever lies behind them, is the decimal text of the integer parsed. For the decimal
  text of an integer of the type it is this text itself.
\<close>

lemma int64_round_trip:
  assumes "col_type c = INT64 \<or> col_type c = FOREIGN_KEY" and "getSize c = 8"
    and "stoll v = Inr x"
  shows "convertAndSave e v c = Inr (bytes_of_llong x)"
    and "convert_col e c (bytes_of_llong x @ behind) = show_int x"
proof -
  have r: "- (2 ^ 63) \<le> x \<and> x < 2 ^ 63"
    using assms(3) by (auto simp: stoll_def split: option.splits if_splits)
  show "convertAndSave e v c = Inr (bytes_of_llong x)"
    using assms by (auto simp: convertAndSave_def write_obj_def)
  show "convert_col e c (bytes_of_llong x @ behind) = show_int x"
    using assms(1) r by (auto simp: convert_col_def llong_of_bytes_of_llong)
qed

lemma int32_round_trip:
  assumes "col_type c = INT32" and "getSize c = 4"
  shows "convertAndSave e v c = Inr (bytes_of_int (atoi v))"
    and "convert_col e c (bytes_of_int (atoi v) @ behind) = show_int (atoi v)"
proof -
  show "convertAndSave e v c = Inr (bytes_of_int (atoi v))"
    using assms by (simp add: convertAndSave_def write_obj_def)
  show "convert_col e c (bytes_of_int (atoi v) @ behind) = show_int (atoi v)"
    using assms(1) atoi_range [of v] by (simp add: convert_col_def int_of_bytes_of_int)
qed

lemma int64_round_trip_decimal:
  assumes "col_type c = INT64 \<or> col_type c = FOREIGN_KEY" and "getSize c = 8"
    and "- (2 ^ 63) \<le> x" and "x < 2 ^ 63"
  shows "\<exists>bs. convertAndSave e (show_int x) c = Inr bs
              \<and> convert_col e c (bs @ behind) = show_int x"
  using int64_round_trip [OF assms(1,2) stoll_show_int [OF assms(3,4)]] by blast

lemma int32_round_trip_decimal:
  assumes "col_type c = INT32" and "getSize c = 4"
    and "- (2 ^ 31) \<le> x" and "x < 2 ^ 31"
  shows "\<exists>bs. convertAndSave e (show_int x) c = Inr bs
              \<and> convert_col e c (bs @ behind) = show_int x"
  using int32_round_trip [OF assms(1,2), of e "show_int x"] atoi_show_int [OF assms(3,4)]
  by simp

subsection \<open>Fixed text\<close>

lemma c_str_append: "list_all (\<lambda>x. x \<noteq> NUL) xs \<Longrightarrow> c_str (xs @ ys) = xs @ c_str ys"
  by (induction xs) (simp_all add: c_str_def)

lemma c_str_terminated: "list_all (\<lambda>x. x \<noteq> NUL) xs \<Longrightarrow> c_str (xs @ NUL # ys) = xs"
  by (induction xs) (simp_all add: c_str_def)

lemma c_str_no_NUL: "list_all (\<lambda>x. x \<noteq> NUL) (c_str v)"
  by (induction v) (simp_all add: c_str_def)

lemma strncpy_c_str: "strncpy n v = take n (c_str v @ replicate n NUL)"
  by (simp add: strncpy_def c_str_def)

text \<open>
  The spec's words for fixed text: the value truncated or zero-padded to \<open>byte_width\<close>
  bytes, then trimmed at the first terminator.
\<close>

definition fixed_text_spec :: "nat \<Rightarrow> string \<Rightarrow> string" where
  "fixed_text_spec byte_width v = c_str (take byte_width (v @ replicate byte_width NUL))"

lemma takeWhile_take_commute: "takeWhile P (take n xs) = take n (takeWhile P xs)"
proof (induction xs arbitrary: n)
  case Nil
  show ?case by simp
next
  case (Cons a xs)
  show ?case by (cases n) (simp_all add: Cons.IH)
qed

lemma takeWhile_padding: "\<not> P a \<Longrightarrow> takeWhile P (xs @ replicate n a) = takeWhile P xs"
proof (induction xs)
  case Nil
  then show ?case by (cases n) simp_all
next
  case (Cons x xs)
  then show ?case by simp
qed

lemma fixed_text_spec_eq: "fixed_text_spec n v = take n (c_str v)"
  by (simp add: fixed_text_spec_def c_str_def takeWhile_take_commute takeWhile_padding)

text \<open>
  C4 on the code, for fixed text. \<open>convertAndSave\<close> writes the value truncated or
  zero-padded to the size of the column. \<open>getRow\<close> inserts the buffer it read them into
  as a C string: a value shorter than the column comes back as it was (up to its own
  terminator, if it has one), but a value of the size of the column or longer fills the
  buffer and leaves it without terminator, and what comes back is the truncated value
  followed by what memory holds behind the buffer, up to the first zero byte there. In
  \<open>getRow\<close> the memory behind the buffer of column \<open>i\<close> is \<open>drop (getSize c) (stack e i)\<close>.
\<close>

theorem fixed_text_round_trip:
  assumes "col_type c = CHAR_T"
  shows "convertAndSave e v c = Inr (strncpy (getSize c) v)
         \<and> convert_col e c (strncpy (getSize c) v @ behind) =
             (if length (c_str v) < getSize c then c_str v
              else fixed_text_spec (getSize c) v @ c_str behind)"
proof
  show "convertAndSave e v c = Inr (strncpy (getSize c) v)"
    using assms by (simp add: convertAndSave_def write_obj_def)
  let ?n = "getSize c"
  show "convert_col e c (strncpy ?n v @ behind) =
          (if length (c_str v) < ?n then c_str v else fixed_text_spec ?n v @ c_str behind)"
  proof (cases "length (c_str v) < ?n")
    case True
    then obtain k where k: "?n - length (c_str v) = Suc k"
      by (cases "?n - length (c_str v)") simp_all
    have "strncpy ?n v = c_str v @ NUL # replicate k NUL"
      using True k by (simp add: strncpy_c_str)
    then have "c_str (strncpy ?n v @ behind) = c_str v"
      using c_str_terminated [OF c_str_no_NUL, of v "replicate k NUL @ behind"] by simp
    then show ?thesis using True assms by (simp add: convert_col_def)
  next
    case False
    then have s: "strncpy ?n v = take ?n (c_str v)"
      by (simp add: strncpy_c_str)
    have "list_all (\<lambda>x. x \<noteq> NUL) (take ?n (c_str v))"
      using c_str_no_NUL [of v] by (auto simp: list_all_iff dest: in_set_takeD)
    from c_str_append [OF this, of behind]
    show ?thesis using False assms by (simp add: convert_col_def s fixed_text_spec_eq)
  qed
qed

text \<open>
  The name of a person, 24 characters, goes into the column \<open>name\<close> of Person, of size
  20. The spec's words give the first 20 characters. \<open>getRow\<close> returns them followed by
  the four bytes that lie behind its buffer.
\<close>

theorem fixed_text_round_trip_witness:
  "col_type \<lparr>col_name = ''name'', col_type = CHAR_T, getSize = 20\<rparr> = CHAR_T
   \<and> fixed_text_spec 20 ''Maria Aparecida da Silva'' = ''Maria Aparecida da S''
   \<and> convert_col env1 \<lparr>col_name = ''name'', col_type = CHAR_T, getSize = 20\<rparr>
         (strncpy 20 ''Maria Aparecida da Silva'' @ drop 20 (stack env1 2))
       = ''Maria Aparecida da S####''
   \<and> fst (getRow env1 0 0
         (snd (Table_insert env0 5 0 [''10'', ''Maria Aparecida da Silva''] world0)))
       = [''0'', ''10'', ''Maria Aparecida da S####'']"
proof -
  have h: "col_type \<lparr>col_name = ''name'', col_type = CHAR_T, getSize = 20\<rparr> = CHAR_T"
    by simp
  have s: "fixed_text_spec 20 ''Maria Aparecida da Silva'' = ''Maria Aparecida da S''"
    by code_simp
  have r: "(if length (c_str ''Maria Aparecida da Silva'')
                < getSize \<lparr>col_name = ''name'', col_type = CHAR_T, getSize = 20\<rparr>
            then c_str ''Maria Aparecida da Silva''
            else fixed_text_spec (getSize \<lparr>col_name = ''name'', col_type = CHAR_T, getSize = 20\<rparr>)
                   ''Maria Aparecida da Silva'' @ c_str (drop 20 (stack env1 2)))
           = ''Maria Aparecida da S####''"
    by code_simp
  have g: "fst (getRow env1 0 0
             (snd (Table_insert env0 5 0 [''10'', ''Maria Aparecida da Silva''] world0)))
           = [''0'', ''10'', ''Maria Aparecida da S####'']"
    by code_simp
  have "convert_col env1 \<lparr>col_name = ''name'', col_type = CHAR_T, getSize = 20\<rparr>
         (strncpy 20 ''Maria Aparecida da Silva'' @ drop 20 (stack env1 2))
       = ''Maria Aparecida da S####''"
    using fixed_text_round_trip [OF h, of env1 "''Maria Aparecida da Silva''"
        "drop 20 (stack env1 2)"] r
    by simp
  then show ?thesis using h s g by simp
qed

section \<open>The seeded join and the full join\<close>






subsection \<open>Rows that are decoded from the file alone\<close>

text \<open>
  The field of a column as \<open>getRow\<close> reads it decides the text of the column, whatever
  memory held, when it fills the local object of the column, and for a \<open>char\<close> array
  when it holds a terminator.
\<close>

definition field_from_file :: "SchemaCol \<Rightarrow> byte list \<Rightarrow> bool" where
  "field_from_file c f =
     (case col_type c of
        INT32 \<Rightarrow> (4 \<le> length f)
      | CHAR_T \<Rightarrow> (NUL \<in> set f)
      | FLOAT \<Rightarrow> (4 \<le> length f)
      | DOUBLE \<Rightarrow> (8 \<le> length f)
      | INT64 \<Rightarrow> (8 \<le> length f)
      | FOREIGN_KEY \<Rightarrow> (8 \<le> length f))"

fun fields_from_file :: "SchemaCol list \<Rightarrow> byte list \<Rightarrow> bool" where
  "fields_from_file [] bs = True"
| "fields_from_file (c # cs) bs =
     (getSize c \<le> length bs \<and> field_from_file c (take (getSize c) bs)
      \<and> fields_from_file cs (drop (getSize c) bs))"

text \<open>
  The record an index entry points to is in the data in full, record header and fields,
  and its fields decide the texts of the row.
\<close>

definition record_from_file :: "Table \<Rightarrow> byte list \<Rightarrow> int \<times> int \<Rightarrow> bool" where
  "record_from_file t data entry =
     (0 \<le> snd entry \<and> snd entry + 267 \<le> int (length data)
      \<and> fields_from_file (getCols (schema t)) (drop (nat (snd entry) + 267) data))"

definition rows_from_file :: "nat \<Rightarrow> World \<Rightarrow> bool" where
  "rows_from_file this w =
     list_all (record_from_file (tables w this) (content (files w) (path (tables w this))))
       (header (tables w this))"





lemma callee_floats [simp]:
  "show_float (callee e k) = show_float e" "show_double (callee e k) = show_double e"
  by (simp_all add: callee_def)


subsection \<open>The loops on stores of fewer than \<open>2 ^ 31\<close> rows\<close>









section \<open>The join of Person and Worked\<close>

text \<open>
  Person with the rows \<open>(0, 9, Jhoe)\<close> and \<open>(1, 10, Marta)\<close>, Worked with the rows
  \<open>(0, 77, 9)\<close>, \<open>(1, 35, 10)\<close> and \<open>(2, 44, 10)\<close>, inserted into the two empty stores.
\<close>

definition world5 :: World where
  "world5 = perform_all
     [(env0, Insert 0 1 [''9'', ''Jhoe'']), (env0, Insert 0 2 [''10'', ''Marta'']),
      (env0, Insert 1 3 [''77'', ''9'']), (env0, Insert 1 4 [''35'', ''10'']),
      (env0, Insert 1 5 [''44'', ''10''])]
     world0"

lemma world5_eval:
  "(let w = world5 in
      header (tables w 0) = [(0, 0), (1, 299)]
      \<and> header (tables w 1) = [(0, 0), (1, 287), (2, 574)]
      \<and> fst (getRow env1 0 0 w) = [''0'', ''9'', ''Jhoe'']
      \<and> fst (getRow env1 0 299 w) = [''1'', ''10'', ''Marta'']
      \<and> fst (getRow env1 1 0 w) = [''0'', ''77'', ''9'']
      \<and> fst (getRow env1 1 287 w) = [''1'', ''35'', ''10'']
      \<and> fst (getRow env1 1 574 w) = [''2'', ''44'', ''10'']
      \<and> fst (nestedLoopJoin env1 0 1 ''id_person'' ''dre'' w)
          = Inr [[0, 0], [299, 287], [299, 574]]
      \<and> rows_from_file 0 w \<and> rows_from_file 1 w
      \<and> getColPosition (schema (tables w 0)) ''dre'' = 1
      \<and> getColPosition (schema (tables w 1)) ''id_person'' = 2
      \<and> length (getCols (schema (tables w 0))) = 3
      \<and> length (getCols (schema (tables w 1))) = 3)"
  by code_simp

text \<open>
  C5. The index of Person holds its two rows, \<open>(0, 9, Jhoe)\<close> and \<open>(1, 10, Marta)\<close>, at the
  offsets \<open>o0 = 0\<close> and \<open>o1 = 299\<close>, the index of Worked its three rows, \<open>(0, 77, 9)\<close>,
  \<open>(1, 35, 10)\<close> and \<open>(2, 44, 10)\<close>, at the offsets \<open>p0 = 0\<close>, \<open>p1 = 287\<close> and \<open>p2 = 574\<close>.
  The full join of Person (inner, on \<open>dre\<close>) with Worked (outer, on \<open>id_person\<close>)
  returns the pairs \<open>(o0, p0)\<close>, \<open>(o1, p1)\<close> and \<open>(o1, p2)\<close>, in this order, and as a set
  exactly these three.
\<close>

theorem join_of_Person_and_Worked:
  "header (tables world5 0) = [(0, 0), (1, 299)]
   \<and> header (tables world5 1) = [(0, 0), (1, 287), (2, 574)]
   \<and> fst (getRow env1 0 0 world5) = [''0'', ''9'', ''Jhoe'']
   \<and> fst (getRow env1 0 299 world5) = [''1'', ''10'', ''Marta'']
   \<and> fst (getRow env1 1 0 world5) = [''0'', ''77'', ''9'']
   \<and> fst (getRow env1 1 287 world5) = [''1'', ''35'', ''10'']
   \<and> fst (getRow env1 1 574 world5) = [''2'', ''44'', ''10'']
   \<and> fst (nestedLoopJoin env1 0 1 ''id_person'' ''dre'' world5)
       = Inr [[0, 0], [299, 287], [299, 574]]
   \<and> (case fst (nestedLoopJoin env1 0 1 ''id_person'' ''dre'' world5) of
        Inl x \<Rightarrow> False
      | Inr join_result \<Rightarrow> set join_result = {[0, 0], [299, 287], [299, 574]})"
proof -
  note e = world5_eval [unfolded Let_def]
  show ?thesis
    by (simp only: e sum.case list.set simp_thms)
qed






end
